theory Spec2Isabelle
  imports Main "HOL-Library.AList"
begin

section \<open>JavaScript strings and values\<close>

text \<open>
  A JavaScript string is a sequence of UTF-16 code units; \<open>length\<close>, \<open>slice\<close> and the
  character classes of a regular expression without the \<open>u\<close> flag all count code units.
  \<open>js\<close> embeds an ASCII literal.
\<close>

type_synonym jschar = nat
type_synonym jsstring = "jschar list"

definition js :: "string \<Rightarrow> jsstring" where
  "js s = map of_char s"

text \<open>
  The code units that \<open>String.prototype.trim\<close> strips and that \<open>\s\<close> matches
  (ECMAScript WhiteSpace and LineTerminator): TAB, LF, VT, FF, CR, SP, NBSP, U+1680,
  U+2000..U+200A, LS, PS, U+202F, U+205F, U+3000, U+FEFF.
\<close>

definition isWhiteSpace :: "jschar \<Rightarrow> bool" where
  "isWhiteSpace c \<longleftrightarrow>
     c \<in> set [9, 10, 11, 12, 13, 32, 160, 5760, 8232, 8233, 8239, 8287, 12288, 65279]
     \<or> (8192 \<le> c \<and> c \<le> 8202)"

definition trim :: "jsstring \<Rightarrow> jsstring" where
  "trim s = rev (dropWhile isWhiteSpace (rev (dropWhile isWhiteSpace s)))"

text \<open>\<open>s.slice(0, n)\<close> for a non-negative literal \<open>n\<close>.\<close>

definition slice0 :: "nat \<Rightarrow> jsstring \<Rightarrow> jsstring" where
  "slice0 n s = take n s"

definition asciiLower :: "jschar \<Rightarrow> jschar" where
  "asciiLower c = (if 65 \<le> c \<and> c \<le> 90 then c + 32 else c)"

text \<open>
  \<open>String.prototype.toLowerCase\<close>. On a string of ASCII code units it maps \<open>A..Z\<close> to
  \<open>a..z\<close>; on any other string it is the Unicode default case conversion, whose tables are
  not part of the repository and are taken as the parameter \<open>uni\<close>.
\<close>

definition toLowerCase :: "(jsstring \<Rightarrow> jsstring) \<Rightarrow> jsstring \<Rightarrow> jsstring" where
  "toLowerCase uni s = (if list_all (\<lambda>c. c < 128) s then map asciiLower s else uni s)"

text \<open>
  The values a parsed JSON request body is made of. Only the type and the truthiness of a
  number are observed by the handlers, so numbers are integers here.
\<close>

datatype jsval =
    JUndefined
  | JNull
  | JBool bool
  | JNum int
  | JStr jsstring
  | JArr "jsval list"
  | JObj "(jsstring \<times> jsval) list"

fun truthy :: "jsval \<Rightarrow> bool" where
  "truthy JUndefined = False"
| "truthy JNull = False"
| "truthy (JBool b) = b"
| "truthy (JNum n) = (n \<noteq> 0)"
| "truthy (JStr s) = (s \<noteq> [])"
| "truthy (JArr xs) = True"
| "truthy (JObj kvs) = True"

text \<open>
  Reading the property \<open>k\<close> of a value that is neither \<open>undefined\<close> nor \<open>null\<close>: an
  object yields the stored value, and a missing property, or any property of the names used
  here on a primitive or an array, yields \<open>undefined\<close>.
\<close>

fun getProp :: "jsval \<Rightarrow> jsstring \<Rightarrow> jsval" where
  "getProp (JObj kvs) k = (case map_of kvs k of Some v \<Rightarrow> v | None \<Rightarrow> JUndefined)"
| "getProp v k = JUndefined"

datatype js_error = TypeError jsstring | Error jsstring

fun message :: "js_error \<Rightarrow> jsstring" where
  "message (TypeError m) = m"
| "message (Error m) = m"

section \<open>Regular expressions\<close>

text \<open>
  The regular expressions of the handlers are anchored at both ends (\<open>^...$\<close>, no flags),
  so \<open>test\<close> is a match of the whole string. \<open>Cls p\<close> is a character class, given by
  the code units it accepts; matching is by derivatives.
\<close>

datatype rx = Zero | Eps | Cls "jschar \<Rightarrow> bool" | Cat rx rx | Star rx

definition OneOrMore :: "rx \<Rightarrow> rx" where
  "OneOrMore r = Cat r (Star r)"

fun nullable :: "rx \<Rightarrow> bool" where
  "nullable Zero = False"
| "nullable Eps = True"
| "nullable (Cls p) = False"
| "nullable (Cat r s) = (nullable r \<and> nullable s)"
| "nullable (Star r) = True"

fun deriv :: "jschar \<Rightarrow> rx \<Rightarrow> rx list" where
  "deriv c Zero = []"
| "deriv c Eps = []"
| "deriv c (Cls p) = (if p c then [Eps] else [])"
| "deriv c (Cat r s) =
     map (\<lambda>r'. Cat r' s) (deriv c r) @ (if nullable r then deriv c s else [])"
| "deriv c (Star r) = map (\<lambda>r'. Cat r' (Star r)) (deriv c r)"

fun matches :: "rx list \<Rightarrow> jsstring \<Rightarrow> bool" where
  "matches rs [] = list_ex nullable rs"
| "matches rs (c # cs) = matches (concat (map (deriv c) rs)) cs"

definition rx_test :: "rx \<Rightarrow> jsstring \<Rightarrow> bool" where
  "rx_test r s = matches [r] s"

section \<open>api/generate.js: validation and sanitization\<close>

text \<open>
  The character classes of
  \<^verbatim>\<open>/^[a-zA-Z0-9.!#$%&'*+/=?^_`{|}~-]+@[a-zA-Z0-9-]+(?:\.[a-zA-Z0-9-]+)*$/\<close>,
  by code unit: letters and digits, and for the local part the punctuation
  \<open>. ! # $ % & ' * + / = ? ^ _\<close>, the backquote, \<open>{ | } ~ -\<close>.
\<close>

definition alnum :: "jschar \<Rightarrow> bool" where
  "alnum c \<longleftrightarrow> (97 \<le> c \<and> c \<le> 122) \<or> (65 \<le> c \<and> c \<le> 90) \<or> (48 \<le> c \<and> c \<le> 57)"

definition emailLocalChar :: "jschar \<Rightarrow> bool" where
  "emailLocalChar c \<longleftrightarrow>
     alnum c \<or> c \<in> set [46, 33, 35, 36, 37, 38, 39, 42, 43, 47, 61, 63, 94, 95, 96,
                          123, 124, 125, 126, 45]"

definition emailDomainChar :: "jschar \<Rightarrow> bool" where
  "emailDomainChar c \<longleftrightarrow> alnum c \<or> c = 45"

definition emailRegex :: rx where
  "emailRegex =
     Cat (OneOrMore (Cls emailLocalChar))
    (Cat (Cls (\<lambda>c. c = 64))
    (Cat (OneOrMore (Cls emailDomainChar))
         (Star (Cat (Cls (\<lambda>c. c = 46)) (OneOrMore (Cls emailDomainChar))))))"

text \<open>The \<open>data\<close> object of an accepted input.\<close>

record clean_data =
  productName :: jsstring
  productFeatures :: jsstring
  email :: jsstring

text \<open>
  The object \<open>validateAndSanitizeInput\<close> returns: \<open>{ valid: false, error }\<close> or
  \<open>{ valid: true, data }\<close>.
\<close>

datatype validation = Invalid jsstring | Valid clean_data

text \<open>
  \<open>sanitizeText\<close>: remove \<open>[\x00-\x1F\x7F]\<close>, then \<open>[<>]\<close> (code units 60 and 62),
  then trim.
\<close>

definition sanitizeText :: "jsstring \<Rightarrow> jsstring" where
  "sanitizeText text =
     trim (filter (\<lambda>c. \<not> (c = 60 \<or> c = 62)) (filter (\<lambda>c. \<not> (c \<le> 31 \<or> c = 127)) text))"

text \<open>
  \<open>validateAndSanitizeInput(data)\<close>. Destructuring \<open>undefined\<close> or \<open>null\<close> throws a
  TypeError, and so does \<open>email.trim()\<close> when \<open>email\<close> is truthy and not a string (no
  JSON value but a string has a callable \<open>trim\<close>); both are \<open>Inl\<close>. The local names
  \<open>pn\<close>, \<open>pf\<close>, \<open>em\<close> are the destructured \<open>productName\<close>, \<open>productFeatures\<close>,
  \<open>email\<close>.
\<close>

definition validateAndSanitizeInput ::
  "(jsstring \<Rightarrow> jsstring) \<Rightarrow> jsval \<Rightarrow> js_error + validation" where
  "validateAndSanitizeInput uni data =
     (if data = JUndefined
      then Inl (TypeError
             (js ''Cannot destructure property 'productName' of 'data' as it is undefined.''))
      else if data = JNull
      then Inl (TypeError
             (js ''Cannot destructure property 'productName' of 'data' as it is null.''))
      else
        let pn = getProp data (js ''productName'');
            pf = getProp data (js ''productFeatures'');
            em = getProp data (js ''email'')
        in
        if \<not> truthy em then Inr (Invalid (js ''Invalid email address format''))
        else (case em of
          JStr e \<Rightarrow>
            if \<not> rx_test emailRegex (trim e)
            then Inr (Invalid (js ''Invalid email address format''))
            else (case pn of
              JStr n \<Rightarrow>
                if n = [] then Inr (Invalid (js ''Product name is required and must be text''))
                else (case pf of
                  JStr f \<Rightarrow>
                    if f = []
                    then Inr (Invalid (js ''Product features are required and must be text''))
                    else
                      let cleanProductName = slice0 100 (trim n);
                          cleanProductFeatures = slice0 2000 (trim f);
                          cleanEmail = toLowerCase uni (trim e)
                      in
                      if length cleanProductName = 0
                      then Inr (Invalid (js ''Product name cannot be empty''))
                      else if length cleanProductFeatures = 0
                      then Inr (Invalid (js ''Product features cannot be empty''))
                      else Inr (Valid \<lparr> productName = sanitizeText cleanProductName,
                                          productFeatures = sanitizeText cleanProductFeatures,
                                          email = sanitizeText cleanEmail \<rparr>)
                | _ \<Rightarrow> Inr (Invalid (js ''Product features are required and must be text'')))
            | _ \<Rightarrow> Inr (Invalid (js ''Product name is required and must be text'')))
        | _ \<Rightarrow> Inl (TypeError (js ''email.trim is not a function''))))"

section \<open>api/generate.js: rate limiter\<close>

text \<open>
  \<open>rateLimitMap\<close> is a JavaScript \<open>Map\<close> from client IP to an array of timestamps
  (milliseconds, as \<open>Date.now()\<close> returns them). A \<open>Map\<close> keeps its keys in insertion
  order and each key once: an association list with \<open>map_of\<close> for \<open>get\<close>,
  \<open>AList.update\<close> for \<open>set\<close> and \<open>AList.delete\<close> for \<open>delete\<close>.
\<close>

type_synonym rate_map = "(jsstring \<times> int list) list"

definition RATE_LIMIT_WINDOW :: int where
  "RATE_LIMIT_WINDOW = 60 * 1000"

definition RATE_LIMIT_MAX_REQUESTS :: nat where
  "RATE_LIMIT_MAX_REQUESTS = 5"

text \<open>The clean-up loop over the entries of the map (the branch taken with probability 1%).\<close>

fun rate_cleanup :: "int \<Rightarrow> (jsstring \<times> int list) list \<Rightarrow> rate_map \<Rightarrow> rate_map" where
  "rate_cleanup now [] m = m"
| "rate_cleanup now ((key, timestamps) # es) m =
     (let valid = filter (\<lambda>t. now - t < RATE_LIMIT_WINDOW) timestamps in
      rate_cleanup now es
        (if length valid = 0 then AList.delete key m else AList.update key valid m))"

text \<open>
  \<open>checkRateLimit(ip)\<close>, with the two reads of the environment as arguments: \<open>now\<close> is
  \<open>Date.now()\<close> and \<open>rnd\<close> is the outcome of \<open>Math.random() < 0.01\<close>. It returns the
  verdict and the updated map.
\<close>

definition checkRateLimit :: "int \<Rightarrow> bool \<Rightarrow> jsstring \<Rightarrow> rate_map \<Rightarrow> bool \<times> rate_map" where
  "checkRateLimit now rnd ip m =
     (let requests = (case map_of m ip of Some r \<Rightarrow> r | None \<Rightarrow> []);
          validRequests = filter (\<lambda>timestamp. now - timestamp < RATE_LIMIT_WINDOW) requests
      in
      if length validRequests \<ge> RATE_LIMIT_MAX_REQUESTS then (False, m)
      else
        let m1 = AList.update ip (validRequests @ [now]) m in
        (True, if rnd then rate_cleanup now m1 m1 else m1))"

section \<open>api/generate.js: response cache\<close>

record cache_entry =
  description :: jsstring
  timestamp :: int

type_synonym cache = "(jsstring \<times> cache_entry) list"

definition CACHE_TTL :: int where
  "CACHE_TTL = 5 * 60 * 1000"

definition getCacheKey :: "(jsstring \<Rightarrow> jsstring) \<Rightarrow> jsstring \<Rightarrow> jsstring \<Rightarrow> jsstring" where
  "getCacheKey uni pn pf =
     (let normalizedFeatures = slice0 200 (trim (toLowerCase uni pf));
          normalizedName = trim (toLowerCase uni pn)
      in normalizedName @ js '':'' @ normalizedFeatures)"

fun cleanCache_loop :: "int \<Rightarrow> (jsstring \<times> cache_entry) list \<Rightarrow> cache \<Rightarrow> cache" where
  "cleanCache_loop now [] c = c"
| "cleanCache_loop now ((key, val) # es) c =
     cleanCache_loop now es
       (if now - timestamp val > CACHE_TTL then AList.delete key c else c)"

text \<open>\<open>cleanCache()\<close>; \<open>now\<close> is its \<open>Date.now()\<close>.\<close>

definition cleanCache :: "int \<Rightarrow> cache \<Rightarrow> cache" where
  "cleanCache now c = cleanCache_loop now c c"

section \<open>api/generate.js: the request handler\<close>

text \<open>
  The request as the handler reads it: the method, the headers it looks at, the socket's
  remote address and the parsed body.
\<close>

record request =
  http_method :: jsstring
  x_forwarded_for :: "jsstring option"
  x_real_ip :: "jsstring option"
  remoteAddress :: "jsstring option"
  x_request_id :: "jsstring option"
  body :: jsval

text \<open>
  \<open>getClientIP(req)\<close>: the text before the first comma of \<open>x-forwarded-for\<close>, or
  \<open>x-real-ip\<close>, or the remote address, or \<open>'unknown'\<close>; \<open>||\<close> skips a missing header
  and an empty string.
\<close>

definition orElse :: "jsstring option \<Rightarrow> jsstring option \<Rightarrow> jsstring option" where
  "orElse a b = (case a of Some s \<Rightarrow> if s \<noteq> [] then a else b | None \<Rightarrow> b)"

definition getClientIP :: "request \<Rightarrow> jsstring" where
  "getClientIP req =
     (case orElse (map_option (takeWhile (\<lambda>c. c \<noteq> 44)) (x_forwarded_for req))
            (orElse (x_real_ip req) (remoteAddress req)) of
        Some ip \<Rightarrow> if ip \<noteq> [] then ip else js ''unknown''
      | None \<Rightarrow> js ''unknown'')"

text \<open>
  What the awaited calls to the three providers can do: the data store's \<open>upsert\<close> resolves
  with \<open>error\<close> null or set, or rejects; the model's \<open>generateContent\<close>, raced against the
  30 second timer, yields the text, rejects, or loses the race; \<open>resend.emails.send\<close>
  resolves or rejects.
\<close>

datatype db_outcome = DbOk | DbError | DbThrows js_error
datatype llm_outcome = LlmText jsstring | LlmRejects js_error | LlmTimeout
datatype send_outcome = SendOk | SendThrows js_error

text \<open>
  Everything the handler reads from outside during one request: the clock at each
  \<open>Date.now()\<close> that decides something, \<open>Math.random() < 0.01\<close>, the generated request
  id, \<open>process.env\<close>, the outcomes of the provider calls in the order they are made, and
  the Unicode case conversion.
\<close>

record env =
  now_rate :: int
  now_clean :: int
  now_lookup :: int
  now_store :: int
  now_sched2 :: int
  now_sched6 :: int
  random_cleanup :: bool
  fresh_request_id :: jsstring
  NODE_ENV :: "jsstring option"
  STRIPE_CHECKOUT_LINK :: "jsstring option"
  db_upsert :: db_outcome
  llm :: llm_outcome
  send1 :: send_outcome
  send2 :: send_outcome
  send3 :: send_outcome
  unicodeLower :: "jsstring \<Rightarrow> jsstring"

text \<open>The module state: the two process-local maps.\<close>

record gstate =
  rateLimitMap :: rate_map
  responseCache :: cache

text \<open>
  The observable steps of a request, in order: log lines (level and message), the validation,
  the cache operations and the calls to the providers. An email is recorded with its
  recipient, its subject and its \<open>scheduled_at\<close> (absent for an immediate email); the
  model call with the product name and features its prompt is built from.
\<close>

datatype level = INFO | WARN | ERROR

datatype event =
    Log level jsstring
  | RateLimit jsstring
  | Validate
  | CleanCache
  | CacheGet jsstring
  | CacheSet jsstring
  | DbUpsert jsstring jsstring
  | LlmCall jsstring jsstring
  | EmailSend jsstring jsstring "int option"

datatype json_body =
    ErrorBody jsstring
  | ErrorIdBody jsstring jsstring
  | DescriptionBody jsstring

record response =
  status :: nat
  json :: json_body

definition subject_immediate :: jsstring where
  "subject_immediate = js ''Here's your free AI-generated description!''"

definition subject_twoHour :: jsstring where
  "subject_twoHour = js ''Are your other product descriptions costing you sales?''"

definition subject_sixHour :: jsstring where
  "subject_sixHour = js ''One-Time Offer: We'll Rewrite Your Entire Catalog for $500''"

text \<open>
  STEP 3, the \<open>try\<close> block of the email sequence with its \<open>catch\<close>: the events, and
  \<open>emailsSentSuccessfully\<close>.
\<close>

definition emailSequence :: "env \<Rightarrow> jsstring \<Rightarrow> event list \<times> bool" where
  "emailSequence e to =
     (let failed = [Log ERROR (js ''Email sending failed'')];
          ev1 = [EmailSend to subject_immediate None]
      in case send1 e of
        SendThrows x \<Rightarrow> (ev1 @ failed, False)
      | SendOk \<Rightarrow>
          let ev2 = ev1 @ [EmailSend to subject_twoHour (Some (now_sched2 e + 2 * 60 * 60 * 1000))]
          in (case send2 e of
            SendThrows x \<Rightarrow> (ev2 @ failed, False)
          | SendOk \<Rightarrow>
              if orElse (STRIPE_CHECKOUT_LINK e) None \<noteq> None
              then
                let ev3 = ev2 @
                      [EmailSend to subject_sixHour (Some (now_sched6 e + 6 * 60 * 60 * 1000))]
                in (case send3 e of
                  SendThrows x \<Rightarrow> (ev3 @ failed, False)
                | SendOk \<Rightarrow> (ev3, True))
              else (ev2, True)))"

text \<open>
  The cache-miss path, from \<open>logEvent('INFO', 'Cache miss', ...)\<close> to the response: the
  events, the new cache, and the response or the error thrown to the handler's \<open>catch\<close>.
\<close>

definition cacheMiss ::
  "env \<Rightarrow> cache \<Rightarrow> clean_data \<Rightarrow> jsstring \<Rightarrow> event list \<times> cache \<times> (js_error + response)" where
  "cacheMiss e c d cacheKey =
     (let ev0 = [Log INFO (js ''Cache miss''), DbUpsert (email d) (productName d)] in
      case db_upsert e of
        DbThrows x \<Rightarrow> (ev0, c, Inl x)
      | dbResult \<Rightarrow>
          let ev1 = ev0 @
                [if dbResult = DbError then Log WARN (js ''Database error occurred'')
                 else Log INFO (js ''Data saved to database''),
                 LlmCall (productName d) (productFeatures d)]
          in (case llm e of
            LlmTimeout \<Rightarrow> (ev1, c, Inl (Error (js ''Request timeout'')))
          | LlmRejects x \<Rightarrow> (ev1, c, Inl x)
          | LlmText text \<Rightarrow>
              if text = [] \<or> length (trim text) = 0
              then (ev1, c, Inl (Error (js ''LLM failed to generate a valid description.'')))
              else
                let c1 = AList.update cacheKey
                           \<lparr> description = trim text, timestamp = now_store e \<rparr> c;
                    (evs, emailsSentSuccessfully) = emailSequence e (email d)
                in (ev1 @ [Log INFO (js ''LLM description generated successfully''),
                           CacheSet cacheKey] @ evs @
                      (if emailsSentSuccessfully
                       then [Log INFO (js ''All emails sent successfully'')] else []) @
                      [Log INFO (js ''Request completed successfully'')],
                    c1,
                    Inr \<lparr> status = 200, json = DescriptionBody (trim text) \<rparr>)))"

text \<open>
  The cache-hit path: the inner \<open>try\<close> (upsert, then the immediate email) with its
  \<open>catch\<close>, and the response with the cached description.
\<close>

definition cacheHit :: "env \<Rightarrow> clean_data \<Rightarrow> cache_entry \<Rightarrow> event list \<times> response" where
  "cacheHit e d cachedItem =
     (let failed = [Log WARN (js ''Cache hit processing failed'')];
          ev0 = [Log INFO (js ''Cache hit for description''),
                 DbUpsert (email d) (productName d)];
          inner = (case db_upsert e of
              DbThrows x \<Rightarrow> ev0 @ failed
            | dbResult \<Rightarrow>
                ev0 @
                (if dbResult = DbOk
                 then [Log INFO (js ''Data saved to database (cache hit)'')] else []) @
                [EmailSend (email d) subject_immediate None] @
                (case send1 e of SendThrows x \<Rightarrow> failed | SendOk \<Rightarrow> []))
      in (inner @ [Log INFO (js ''Request completed successfully (cache hit)'')],
          \<lparr> status = 200, json = DescriptionBody (trim (description cachedItem)) \<rparr>))"

text \<open>The body of the handler's main \<open>try\<close> block.\<close>

definition tryBody ::
  "env \<Rightarrow> request \<Rightarrow> cache \<Rightarrow> event list \<times> cache \<times> (js_error + response)" where
  "tryBody e req c =
     (case validateAndSanitizeInput (unicodeLower e) (body req) of
        Inl x \<Rightarrow> ([Validate], c, Inl x)
      | Inr (Invalid msg) \<Rightarrow> ([Validate], c, Inr \<lparr> status = 400, json = ErrorBody msg \<rparr>)
      | Inr (Valid d) \<Rightarrow>
          let cacheKey = getCacheKey (unicodeLower e) (productName d) (productFeatures d);
              c1 = cleanCache (now_clean e) c;
              ev0 = [Validate, CleanCache, CacheGet cacheKey];
              miss = (let (evs, c2, out) = cacheMiss e c1 d cacheKey in (ev0 @ evs, c2, out))
          in (case map_of c1 cacheKey of
            Some cachedItem \<Rightarrow>
              if now_lookup e - timestamp cachedItem < CACHE_TTL
              then (let (evs, r) = cacheHit e d cachedItem in (ev0 @ evs, c1, Inr r))
              else miss
          | None \<Rightarrow> miss))"

text \<open>What one call of the handler leaves behind: the response, the state, the steps.\<close>

record result =
  response :: response
  state :: gstate
  trace :: "event list"

definition requestId :: "env \<Rightarrow> request \<Rightarrow> jsstring" where
  "requestId e req =
     (case orElse (x_request_id req) None of Some h \<Rightarrow> h | None \<Rightarrow> fresh_request_id e)"

definition handler :: "env \<Rightarrow> request \<Rightarrow> gstate \<Rightarrow> result" where
  "handler e req st =
     (let ev0 = [Log INFO (js ''Request received'')] in
      if http_method req \<noteq> js ''POST''
      then \<lparr> response = \<lparr> status = 405, json = ErrorBody (js ''Method Not Allowed'') \<rparr>,
             state = st, trace = ev0 \<rparr>
      else
        let clientIP = getClientIP req;
            (allowed, rl) = checkRateLimit (now_rate e) (random_cleanup e) clientIP
                              (rateLimitMap st);
            st1 = st \<lparr> rateLimitMap := rl \<rparr>;
            ev1 = ev0 @ [RateLimit clientIP]
        in
        if \<not> allowed
        then \<lparr> response = \<lparr> status = 429,
                  json = ErrorBody (js ''Too many requests. Please try again later.'') \<rparr>,
               state = st1, trace = ev1 \<rparr>
        else
          let (evs, c, out) = tryBody e req (responseCache st1) in
          (case out of
            Inr r \<Rightarrow> \<lparr> response = r, state = st1 \<lparr> responseCache := c \<rparr>, trace = ev1 @ evs \<rparr>
          | Inl error \<Rightarrow>
              let errorMessage =
                    (if NODE_ENV e = Some (js ''development'') then message error
                     else js ''An error occurred while generating your description.'')
              in \<lparr> response = \<lparr> status = 500,
                       json = ErrorIdBody errorMessage (requestId e req) \<rparr>,
                    state = st1 \<lparr> responseCache := c \<rparr>,
                    trace = ev1 @ evs @ [Log ERROR (js ''Request failed'')] \<rparr>))"

section \<open>api/health.js\<close>

text \<open>
  What the health check reads from outside: the method, \<open>process.env\<close>, the clock as an
  ISO string, \<open>process.uptime()\<close>, and the outcome of the database ping (the dynamic
  import, \<open>createClient\<close> and the \<open>select\<close>: it resolves with \<open>error\<close> null or set, or
  something in the inner \<open>try\<close> throws).
\<close>

datatype ping_outcome = PingOk | PingError | PingThrows js_error

record health_env =
  SUPABASE_URL :: "jsstring option"
  SUPABASE_SERVICE_KEY :: "jsstring option"
  GEMINI_API_KEY :: "jsstring option"
  RESEND_API_KEY :: "jsstring option"
  health_NODE_ENV :: "jsstring option"
  isoTimestamp :: jsstring
  uptime :: jsval
  db_ping :: ping_outcome

record health_response =
  health_status :: nat
  health_json :: jsval

definition isSet :: "jsstring option \<Rightarrow> bool" where
  "isSet v = (orElse v None \<noteq> None)"

text \<open>An entry of \<open>healthCheck.services\<close>: an object with exactly these two properties.\<close>

definition serviceEntry :: "string \<Rightarrow> string \<Rightarrow> jsval" where
  "serviceEntry st msg = JObj [(js ''status'', JStr (js st)), (js ''message'', JStr (js msg))]"

definition databaseService :: "health_env \<Rightarrow> jsval" where
  "databaseService h =
     (if isSet (SUPABASE_URL h) \<and> isSet (SUPABASE_SERVICE_KEY h)
      then (case db_ping h of
              PingOk \<Rightarrow> serviceEntry ''ok'' ''Database connection successful''
            | PingError \<Rightarrow> serviceEntry ''error'' ''Database connection failed''
            | PingThrows x \<Rightarrow> serviceEntry ''error'' ''Database service unavailable'')
      else serviceEntry ''not_configured'' ''Database credentials not configured'')"

definition externalService :: "jsstring option \<Rightarrow> jsval" where
  "externalService key =
     (if isSet key then serviceEntry ''ok'' ''Service configured''
      else serviceEntry ''not_configured'' ''Service not configured'')"

text \<open>\<open>healthCheck.services\<close> after the \<open>forEach\<close>, in insertion order.\<close>

definition services :: "health_env \<Rightarrow> (jsstring \<times> jsval) list" where
  "services h =
     [(js ''database'', databaseService h),
      (js ''gemini_api'', externalService (GEMINI_API_KEY h)),
      (js ''resend_api'', externalService (RESEND_API_KEY h))]"

fun isInfix :: "jsstring \<Rightarrow> jsstring \<Rightarrow> bool" where
  "isInfix sub [] = (sub = [])"
| "isInfix sub (c # cs) = (take (length sub) (c # cs) = sub \<or> isInfix sub cs)"

text \<open>
  \<open>v.includes(x)\<close> for a string \<open>x\<close>: a substring test on a string, a membership test on
  an array, and a TypeError on every other value, which has no \<open>includes\<close> to call
  (reading a property of \<open>undefined\<close> or \<open>null\<close> throws already).
\<close>

fun js_includes :: "jsval \<Rightarrow> jsstring \<Rightarrow> js_error + bool" where
  "js_includes (JStr s) x = Inr (isInfix x s)"
| "js_includes (JArr xs) x = Inr (JStr x \<in> set xs)"
| "js_includes v x = Inl (TypeError (js ''Cannot read properties of undefined (reading 'includes')''))"

text \<open>
  \<open>serviceStatuses.some(s => s.status === 'not_configured' &&
  (s.service.includes('database') || s.service.includes('api')))\<close>: the callback runs on the
  elements in order until one returns true; an exception in the callback leaves \<open>some\<close>.
\<close>

fun someCritical :: "jsval list \<Rightarrow> js_error + bool" where
  "someCritical [] = Inr False"
| "someCritical (s # ss) =
     (if getProp s (js ''status'') = JStr (js ''not_configured'')
      then (case js_includes (getProp s (js ''service'')) (js ''database'') of
              Inl x \<Rightarrow> Inl x
            | Inr True \<Rightarrow> Inr True
            | Inr False \<Rightarrow>
                (case js_includes (getProp s (js ''service'')) (js ''api'') of
                   Inl x \<Rightarrow> Inl x
                 | Inr True \<Rightarrow> Inr True
                 | Inr False \<Rightarrow> someCritical ss))
      else someCritical ss)"

definition healthCheck :: "health_env \<Rightarrow> string \<Rightarrow> jsval" where
  "healthCheck h st =
     JObj [(js ''status'', JStr (js st)),
           (js ''timestamp'', JStr (isoTimestamp h)),
           (js ''uptime'', uptime h),
           (js ''version'', JStr (js ''1.0.0'')),
           (js ''environment'',
              JStr (case orElse (health_NODE_ENV h) None of
                      Some v \<Rightarrow> v | None \<Rightarrow> js ''development'')),
           (js ''services'', JObj (services h))]"

definition health_handler :: "health_env \<Rightarrow> jsstring \<Rightarrow> health_response" where
  "health_handler h meth =
     (if meth \<noteq> js ''GET''
      then \<lparr> health_status = 405,
             health_json = JObj [(js ''status'', JStr (js ''error'')),
                                 (js ''message'', JStr (js ''Method Not Allowed''))] \<rparr>
      else
        let serviceStatuses = map snd (services h);
            hasErrors = list_ex (\<lambda>s. getProp s (js ''status'') = JStr (js ''error''))
                          serviceStatuses
        in (case someCritical serviceStatuses of
          Inl error \<Rightarrow>
            \<lparr> health_status = 503,
              health_json = JObj [(js ''status'', JStr (js ''error'')),
                                  (js ''timestamp'', JStr (isoTimestamp h)),
                                  (js ''message'', JStr (js ''Health check failed'')),
                                  (js ''error'',
                                     JStr (if health_NODE_ENV h = Some (js ''development'')
                                           then message error
                                           else js ''Internal server error''))] \<rparr>
        | Inr hasCriticalIssues \<Rightarrow>
            if hasErrors then \<lparr> health_status = 503, health_json = healthCheck h ''error'' \<rparr>
            else if hasCriticalIssues
            then \<lparr> health_status = 200, health_json = healthCheck h ''degraded'' \<rparr>
            else \<lparr> health_status = 200, health_json = healthCheck h ''ok'' \<rparr>))"

section \<open>api/unsubscribe.js\<close>

text \<open>
  \<^verbatim>\<open>/^[^\s@]+@[^\s@]+\.[^\s@]+$/\<close>: the class is every code unit that is neither white
  space nor \<open>@\<close> (64); the literal dot is 46.
\<close>

definition notSpaceAt :: "jschar \<Rightarrow> bool" where
  "notSpaceAt c \<longleftrightarrow> \<not> isWhiteSpace c \<and> c \<noteq> 64"

definition unsubscribeRegex :: rx where
  "unsubscribeRegex =
     Cat (OneOrMore (Cls notSpaceAt))
    (Cat (Cls (\<lambda>c. c = 64))
    (Cat (OneOrMore (Cls notSpaceAt))
    (Cat (Cls (\<lambda>c. c = 46))
         (OneOrMore (Cls notSpaceAt)))))"

text \<open>
  What the database code of a branch can do: the dynamic import or \<open>createClient\<close> throws
  before any query is made, or the awaited update resolves with \<open>error\<close> null, resolves
  with \<open>error\<close> set, or throws.
\<close>

datatype update_outcome = ClientThrows js_error | UpdateOk | UpdateError | UpdateThrows js_error

text \<open>
  The pages of the GET branch (the success page shows the address as given) and the JSON
  bodies of the POST branch.
\<close>

datatype unsubscribe_body =
    InvalidLinkPage
  | SuccessPage jsstring
  | ErrorPage
  | JsonError jsstring
  | JsonSuccess jsstring

text \<open>
  The calls a request makes: the update of the \<open>leads\<close> row selected by the lower-cased
  address, and \<open>console.error\<close> with its label.
\<close>

datatype unsubscribe_event = LeadsUpdate jsstring | ConsoleError jsstring

record unsubscribe_result =
  unsubscribe_status :: nat
  unsubscribe_body :: unsubscribe_body
  unsubscribe_trace :: "unsubscribe_event list"

text \<open>
  The handler, on the requests whose \<open>email\<close> is a string or absent. \<open>qemail\<close> is
  \<open>req.query.email\<close> of a GET request: a parameter given once (a string) or not at all.
  \<open>bemail\<close> is \<open>req.body.email\<close> of a POST request whose parsed body is an object: a
  string or absent. A repeated query parameter (an array), a body \<open>email\<close> of another
  type, and a POST request without a parsed body, whose \<open>const { email } = req.body\<close>
  throws before the \<open>try\<close> is entered, are not among these requests and have no
  counterpart here. \<open>addr\<close> is the local \<open>email\<close> of either branch.
\<close>

definition unsubscribe_handler ::
  "(jsstring \<Rightarrow> jsstring) \<Rightarrow> update_outcome \<Rightarrow> jsstring \<Rightarrow> jsstring option \<Rightarrow> jsstring option
     \<Rightarrow> unsubscribe_result" where
  "unsubscribe_handler uni upd meth qemail bemail =
     (if meth = js ''GET'' then
        (case orElse qemail None of
           None \<Rightarrow> \<lparr> unsubscribe_status = 400, unsubscribe_body = InvalidLinkPage,
                     unsubscribe_trace = [] \<rparr>
         | Some addr \<Rightarrow>
             if \<not> rx_test unsubscribeRegex addr
             then \<lparr> unsubscribe_status = 500, unsubscribe_body = ErrorPage,
                    unsubscribe_trace = [ConsoleError (js ''Unsubscribe error:'')] \<rparr>
             else (case upd of
               ClientThrows x \<Rightarrow>
                 \<lparr> unsubscribe_status = 500, unsubscribe_body = ErrorPage,
                   unsubscribe_trace = [ConsoleError (js ''Unsubscribe error:'')] \<rparr>
             | UpdateThrows x \<Rightarrow>
                 \<lparr> unsubscribe_status = 500, unsubscribe_body = ErrorPage,
                   unsubscribe_trace = [LeadsUpdate (toLowerCase uni addr),
                                        ConsoleError (js ''Unsubscribe error:'')] \<rparr>
             | UpdateError \<Rightarrow>
                 \<lparr> unsubscribe_status = 200, unsubscribe_body = SuccessPage addr,
                   unsubscribe_trace = [LeadsUpdate (toLowerCase uni addr),
                                        ConsoleError (js ''Unsubscribe database error:'')] \<rparr>
             | UpdateOk \<Rightarrow>
                 \<lparr> unsubscribe_status = 200, unsubscribe_body = SuccessPage addr,
                   unsubscribe_trace = [LeadsUpdate (toLowerCase uni addr)] \<rparr>))
      else if meth = js ''POST'' then
        (case orElse bemail None of
           None \<Rightarrow> \<lparr> unsubscribe_status = 400,
                     unsubscribe_body = JsonError (js ''Email is required''),
                     unsubscribe_trace = [] \<rparr>
         | Some addr \<Rightarrow>
             if \<not> rx_test unsubscribeRegex addr
             then \<lparr> unsubscribe_status = 400,
                    unsubscribe_body = JsonError (js ''Invalid email format''),
                    unsubscribe_trace = [] \<rparr>
             else (case upd of
               ClientThrows x \<Rightarrow>
                 \<lparr> unsubscribe_status = 500,
                   unsubscribe_body = JsonError (js ''Failed to unsubscribe. Please try again.''),
                   unsubscribe_trace = [ConsoleError (js ''Unsubscribe error:'')] \<rparr>
             | UpdateThrows x \<Rightarrow>
                 \<lparr> unsubscribe_status = 500,
                   unsubscribe_body = JsonError (js ''Failed to unsubscribe. Please try again.''),
                   unsubscribe_trace = [LeadsUpdate (toLowerCase uni addr),
                                        ConsoleError (js ''Unsubscribe error:'')] \<rparr>
             | _ \<Rightarrow>
                 \<lparr> unsubscribe_status = 200,
                   unsubscribe_body = JsonSuccess (js ''Successfully unsubscribed''),
                   unsubscribe_trace = [LeadsUpdate (toLowerCase uni addr)] \<rparr>))
      else \<lparr> unsubscribe_status = 405, unsubscribe_body = JsonError (js ''Method Not Allowed''),
             unsubscribe_trace = [] \<rparr>)"

section \<open>Predicates used in the statements\<close>

text \<open>A value built by \<open>serviceEntry\<close>: an object with a status and a message, nothing else.\<close>

definition isEntry :: "jsval \<Rightarrow> bool" where
  "isEntry s = (\<exists>st msg. s = serviceEntry st msg)"

text \<open>
  The window stored for a client: \<open>rateLimitMap.get(ip) || []\<close>. A timestamp is fresh at
  \<open>now\<close> when it is less than the rate-limit window old.
\<close>

definition window :: "rate_map \<Rightarrow> jsstring \<Rightarrow> int list" where
  "window m ip = (case map_of m ip of Some r \<Rightarrow> r | None \<Rightarrow> [])"

definition fresh :: "int \<Rightarrow> int \<Rightarrow> bool" where
  "fresh now = (\<lambda>t. now - t < RATE_LIMIT_WINDOW)"

text \<open>The timestamps of a sliding window of the rate limiter's length that starts at \<open>w\<close>.\<close>

definition inWindow :: "int \<Rightarrow> int \<Rightarrow> bool" where
  "inWindow w = (\<lambda>t. w \<le> t \<and> t < w + RATE_LIMIT_WINDOW)"

text \<open>
  A run of the handler over a sequence of requests, each with what it reads from outside,
  the module state threaded through. \<open>admittedTimes ip\<close> lists the rate-limiter clock
  readings of the POST requests of client \<open>ip\<close> that were not answered 429.
\<close>

fun admittedTimes :: "jsstring \<Rightarrow> gstate \<Rightarrow> (env \<times> request) list \<Rightarrow> int list" where
  "admittedTimes ip st [] = []"
| "admittedTimes ip st ((e, req) # rs) =
     (let r = handler e req st in
      (if http_method req = js ''POST'' \<and> getClientIP req = ip \<and> status (response r) \<noteq> 429
       then [now_rate e] else [])
      @ admittedTimes ip (state r) rs)"

text \<open>
  The handler takes the rate-limited path: the method is POST and \<open>checkRateLimit\<close>
  returns true.
\<close>

definition admits :: "env \<Rightarrow> request \<Rightarrow> gstate \<Rightarrow> bool" where
  "admits e req st \<longleftrightarrow>
     http_method req = js ''POST'' \<and>
     fst (checkRateLimit (now_rate e) (random_cleanup e) (getClientIP req) (rateLimitMap st))"

text \<open>
  The condition of the handler's cache-hit branch, for the accepted data \<open>d\<close> and the cache
  \<open>c\<close> at the start of the \<open>try\<close> block:
  \<open>cachedItem && (Date.now() - cachedItem.timestamp < CACHE_TTL)\<close> after \<open>cleanCache()\<close>.
\<close>

definition cacheHitFor :: "env \<Rightarrow> cache \<Rightarrow> clean_data \<Rightarrow> bool" where
  "cacheHitFor e c d =
     (case map_of (cleanCache (now_clean e) c)
             (getCacheKey (unicodeLower e) (productName d) (productFeatures d)) of
        Some cachedItem \<Rightarrow> now_lookup e - timestamp cachedItem < CACHE_TTL
      | None \<Rightarrow> False)"

text \<open>The test of \<open>cleanCache\<close>: \<open>now - value.timestamp > CACHE_TTL\<close>.\<close>

definition expired :: "int \<Rightarrow> cache_entry \<Rightarrow> bool" where
  "expired now v \<longleftrightarrow> now - timestamp v > CACHE_TTL"

text \<open>
  The four kinds of step whose order the handler fixes, read off the trace: the validation,
  the upsert of the lead row, the call to the generative model, a call to the email provider.
\<close>

datatype step = SValidate | SUpsert | SLlm | SEmail

fun stepOf :: "event \<Rightarrow> step option" where
  "stepOf Validate = Some SValidate"
| "stepOf (DbUpsert a n) = Some SUpsert"
| "stepOf (LlmCall n f) = Some SLlm"
| "stepOf (EmailSend a s t) = Some SEmail"
| "stepOf ev = None"

fun steps :: "event list \<Rightarrow> step list" where
  "steps [] = []"
| "steps (ev # evs) = (case stepOf ev of Some s \<Rightarrow> s # steps evs | None \<Rightarrow> steps evs)"

text \<open>
  Two orders of the steps: the one the specification states (validate, model, upsert,
  email) and the one of the source (validate, upsert, model, email). A trace follows an
  order when the ranks of its steps never decrease.
\<close>

fun claimedRank :: "step \<Rightarrow> nat" where
  "claimedRank SValidate = 0"
| "claimedRank SLlm = 1"
| "claimedRank SUpsert = 2"
| "claimedRank SEmail = 3"

fun codeRank :: "step \<Rightarrow> nat" where
  "codeRank SValidate = 0"
| "codeRank SUpsert = 1"
| "codeRank SLlm = 2"
| "codeRank SEmail = 3"

fun isCacheGet :: "event \<Rightarrow> bool" where
  "isCacheGet (CacheGet k) = True"
| "isCacheGet ev = False"

fun isLlmCall :: "event \<Rightarrow> bool" where
  "isLlmCall (LlmCall n f) = True"
| "isLlmCall ev = False"


text \<open>
  Every cache lookup of a trace comes directly after a \<open>cleanCache()\<close>; \<open>prev\<close> tells
  whether the step before the list was one.
\<close>

fun cleanedBefore :: "bool \<Rightarrow> event list \<Rightarrow> bool" where
  "cleanedBefore prev [] = True"
| "cleanedBefore prev (ev # evs) =
     ((if isCacheGet ev then prev else True) \<and> cleanedBefore (ev = CleanCache) evs)"

text \<open>
  What the handler keeps true of \<open>responseCache\<close>: a \<open>Map\<close> has each key once, and every
  description was stored trimmed (\<open>description: description.trim()\<close>).
\<close>

definition cacheTrimmed :: "cache \<Rightarrow> bool" where
  "cacheTrimmed c = list_all (\<lambda>(k, v). trim (description v) = description v) c"

definition cacheOk :: "cache \<Rightarrow> bool" where
  "cacheOk c \<longleftrightarrow> distinct (map fst c) \<and> cacheTrimmed c"

text \<open>
  The code units some character class of a regular expression accepts, and the printable
  ASCII code units other than \<open><\<close> and \<open>>\<close>.
\<close>

fun alphabet :: "rx \<Rightarrow> jschar \<Rightarrow> bool" where
  "alphabet Zero c = False"
| "alphabet Eps c = False"
| "alphabet (Cls p) c = p c"
| "alphabet (Cat r s) c = (alphabet r c \<or> alphabet s c)"
| "alphabet (Star r) c = alphabet r c"

definition plainChar :: "jschar \<Rightarrow> bool" where
  "plainChar c \<longleftrightarrow> 33 \<le> c \<and> c \<le> 126 \<and> c \<noteq> 60 \<and> c \<noteq> 62"

section \<open>Example inputs\<close>

text \<open>
  A POST request from one client with a well-formed body, an environment in which every
  provider call succeeds, and the state of a fresh process.
\<close>

definition example_request :: request where
  "example_request =
     \<lparr> http_method = js ''POST'',
       x_forwarded_for = Some (js ''203.0.113.7, 10.0.0.1''),
       x_real_ip = None, remoteAddress = None, x_request_id = None,
       body = JObj [(js ''productName'', JStr (js ''Lamp'')),
                    (js ''productFeatures'', JStr (js ''Bright <b>LED</b>'')),
                    (js ''email'', JStr (js '' Ann@Example.com ''))] \<rparr>"

definition example_env :: env where
  "example_env =
     \<lparr> now_rate = 1000, now_clean = 1001, now_lookup = 1002, now_store = 1003,
       now_sched2 = 1004, now_sched6 = 1005, random_cleanup = True,
       fresh_request_id = js ''req_1000_k3j9x0a1b'',
       NODE_ENV = Some (js ''production''),
       STRIPE_CHECKOUT_LINK = Some (js ''https://buy.example/offer''),
       db_upsert = DbOk, llm = LlmText (js '' A fine lamp. ''),
       send1 = SendOk, send2 = SendOk, send3 = SendOk, unicodeLower = id \<rparr>"

definition fresh_state :: gstate where
  "fresh_state = \<lparr> rateLimitMap = [], responseCache = [] \<rparr>"

text \<open>
  The data \<open>validateAndSanitizeInput\<close> returns for the example request, a state whose
  cache holds a description under the example request's key, a state in which the example
  client has five recent requests, and a cache with one fresh and one stale entry.
\<close>

definition example_data :: clean_data where
  "example_data = \<lparr> productName = js ''Lamp'', productFeatures = js ''Bright bLED/b'',
                     email = js ''ann@example.com'' \<rparr>"

definition cached_state :: gstate where
  "cached_state =
     \<lparr> rateLimitMap = [],
       responseCache = [(js ''lamp:bright bled/b'',
                         \<lparr> description = js ''A fine lamp.'', timestamp = 500 \<rparr>)] \<rparr>"

definition busy_state :: gstate where
  "busy_state =
     \<lparr> rateLimitMap = [(js ''203.0.113.7'', [100, 200, 300, 400, 500])],
       responseCache = [] \<rparr>"

definition example_cache :: cache where
  "example_cache =
     [(js ''lamp:bright led'', \<lparr> description = js ''A fine lamp.'', timestamp = 200000 \<rparr>),
      (js ''desk:oak'', \<lparr> description = js ''A sturdy desk.'', timestamp = 1000 \<rparr>)]"

section \<open>Basic facts\<close>

lemma js_inj: "js a = js b \<longleftrightarrow> a = b"
  by (simp add: js_def inj_on_def)

section \<open>api/health.js: the critical-issues computation\<close>

lemma getProp_serviceEntry_status:
  "getProp (serviceEntry st msg) (js ''status'') = JStr (js st)"
  by (simp add: serviceEntry_def js_inj)

lemma getProp_serviceEntry_service:
  "getProp (serviceEntry st msg) (js ''service'') = JUndefined"
  by (simp add: serviceEntry_def js_inj)

lemma someCritical_entries:
  "list_all isEntry ss \<Longrightarrow>
   someCritical ss =
     (if list_ex (\<lambda>s. getProp s (js ''status'') = JStr (js ''not_configured'')) ss
      then Inl (TypeError (js ''Cannot read properties of undefined (reading 'includes')''))
      else Inr False)"
  by (induction ss)
     (auto simp: isEntry_def getProp_serviceEntry_status getProp_serviceEntry_service)

lemma services_entries: "list_all isEntry (map snd (services h))"
  by (auto simp: services_def databaseService_def externalService_def isEntry_def
           split: ping_outcome.splits)

text \<open>
  Claim C9. In a GET health check where no service entry has status \<open>error\<close> and at least
  one has status \<open>not_configured\<close>, some entry with status \<open>not_configured\<close> has no
  property \<open>service\<close>, the critical-issues computation throws a TypeError, and the handler's
  \<open>catch\<close> answers 503 with the message \<open>Health check failed\<close>. In every execution the
  computation never yields true, and no response carries the status \<open>degraded\<close>.
\<close>

theorem health_not_configured_fails:
  "(meth = js ''GET'' \<and>
    \<not> list_ex (\<lambda>s. getProp s (js ''status'') = JStr (js ''error'')) (map snd (services h)) \<and>
    list_ex (\<lambda>s. getProp s (js ''status'') = JStr (js ''not_configured''))
      (map snd (services h))
    \<longrightarrow>
      (\<exists>s \<in> set (map snd (services h)).
          getProp s (js ''status'') = JStr (js ''not_configured'') \<and>
          getProp s (js ''service'') = JUndefined) \<and>
      (\<exists>x. someCritical (map snd (services h)) = Inl (TypeError x)) \<and>
      health_status (health_handler h meth) = 503 \<and>
      getProp (health_json (health_handler h meth)) (js ''message'')
        = JStr (js ''Health check failed'')) \<and>
   someCritical (map snd (services h)) \<noteq> Inr True \<and>
   getProp (health_json (health_handler h meth)) (js ''status'') \<noteq> JStr (js ''degraded'')"
proof -
  let ?ss = "map snd (services h)"
  let ?nc = "\<lambda>s. getProp s (js ''status'') = JStr (js ''not_configured'')"
  have ent: "list_all isEntry ?ss" by (rule services_entries)
  note sc = someCritical_entries [OF ent]
  have never: "someCritical ?ss \<noteq> Inr True" by (simp add: sc)
  have nodeg:
    "getProp (health_json (health_handler h meth)) (js ''status'') \<noteq> JStr (js ''degraded'')"
    using never
    by (auto simp: health_handler_def healthCheck_def Let_def js_inj sc split: sum.splits)
  have main:
    "(\<exists>s \<in> set ?ss. ?nc s \<and> getProp s (js ''service'') = JUndefined) \<and>
     (\<exists>x. someCritical ?ss = Inl (TypeError x)) \<and>
     health_status (health_handler h meth) = 503 \<and>
     getProp (health_json (health_handler h meth)) (js ''message'')
       = JStr (js ''Health check failed'')"
    if m: "meth = js ''GET''" and nc: "list_ex ?nc ?ss"
  proof -
    from nc obtain s where s: "s \<in> set ?ss" "?nc s"
      by (auto simp: list_ex_iff)
    from ent s(1) have "isEntry s" by (auto simp: list_all_iff)
    then have "getProp s (js ''service'') = JUndefined"
      by (auto simp: isEntry_def getProp_serviceEntry_service)
    with s have a: "\<exists>s \<in> set ?ss. ?nc s \<and> getProp s (js ''service'') = JUndefined"
      by blast
    have b: "someCritical ?ss =
        Inl (TypeError (js ''Cannot read properties of undefined (reading 'includes')''))"
      using nc by (simp add: sc)
    have c: "health_status (health_handler h meth) = 503"
      using m b by (simp add: health_handler_def Let_def)
    have d: "getProp (health_json (health_handler h meth)) (js ''message'')
        = JStr (js ''Health check failed'')"
      using m b by (simp add: health_handler_def Let_def js_inj)
    from a b c d show ?thesis by blast
  qed
  from main never nodeg show ?thesis by blast
qed

theorem health_not_configured_fails_witness:
  "\<not> list_ex (\<lambda>s. getProp s (js ''status'') = JStr (js ''error''))
       (map snd (services \<lparr> SUPABASE_URL = Some (js ''https://db''),
          SUPABASE_SERVICE_KEY = Some (js ''key''), GEMINI_API_KEY = None,
          RESEND_API_KEY = Some (js ''re''), health_NODE_ENV = None,
          isoTimestamp = js ''2024-01-01T00:00:00.000Z'', uptime = JNum 1,
          db_ping = PingOk \<rparr>)) \<and>
   list_ex (\<lambda>s. getProp s (js ''status'') = JStr (js ''not_configured''))
       (map snd (services \<lparr> SUPABASE_URL = Some (js ''https://db''),
          SUPABASE_SERVICE_KEY = Some (js ''key''), GEMINI_API_KEY = None,
          RESEND_API_KEY = Some (js ''re''), health_NODE_ENV = None,
          isoTimestamp = js ''2024-01-01T00:00:00.000Z'', uptime = JNum 1,
          db_ping = PingOk \<rparr>)) \<and>
   health_status (health_handler \<lparr> SUPABASE_URL = Some (js ''https://db''),
          SUPABASE_SERVICE_KEY = Some (js ''key''), GEMINI_API_KEY = None,
          RESEND_API_KEY = Some (js ''re''), health_NODE_ENV = None,
          isoTimestamp = js ''2024-01-01T00:00:00.000Z'', uptime = JNum 1,
          db_ping = PingOk \<rparr> (js ''GET'')) = 503"
proof -
  let ?h = "\<lparr> SUPABASE_URL = Some (js ''https://db''),
          SUPABASE_SERVICE_KEY = Some (js ''key''), GEMINI_API_KEY = None,
          RESEND_API_KEY = Some (js ''re''), health_NODE_ENV = None,
          isoTimestamp = js ''2024-01-01T00:00:00.000Z'', uptime = JNum 1,
          db_ping = PingOk \<rparr>"
  have a: "\<not> list_ex (\<lambda>s. getProp s (js ''status'') = JStr (js ''error''))
             (map snd (services ?h))"
    by (simp add: services_def databaseService_def externalService_def isSet_def orElse_def
                  getProp_serviceEntry_status js_inj)
  have b: "list_ex (\<lambda>s. getProp s (js ''status'') = JStr (js ''not_configured''))
             (map snd (services ?h))"
    by (simp add: services_def databaseService_def externalService_def isSet_def orElse_def
                  getProp_serviceEntry_status js_inj)
  from health_not_configured_fails [of "js ''GET''" ?h] a b show ?thesis by blast
qed

section \<open>api/unsubscribe.js: the GET branch\<close>

lemma unsubscribeRegex_nonempty: "rx_test unsubscribeRegex addr \<Longrightarrow> addr \<noteq> []"
  by (auto simp: rx_test_def unsubscribeRegex_def OneOrMore_def)

lemma unsubscribe_get_throw_500:
  "rx_test unsubscribeRegex addr \<Longrightarrow>
   unsubscribe_status (unsubscribe_handler uni (UpdateThrows x) (js ''GET'') (Some addr) bemail)
     = 500"
  using unsubscribeRegex_nonempty [of addr]
  by (simp add: unsubscribe_handler_def orElse_def)

text \<open>
  Claim C10. For a GET request whose \<open>email\<close> query parameter matches the format regex, a
  database update that resolves with an error is logged with \<open>console.error\<close> and
  discarded: the handler answers 200 with the success page, exactly the status and page it
  answers when the update resolves without an error. The response therefore carries no
  information on whether the lead row was updated.
\<close>

theorem unsubscribe_get_discards_update_error:
  assumes "rx_test unsubscribeRegex addr"
  shows "unsubscribe_status (unsubscribe_handler uni UpdateError (js ''GET'') (Some addr) bemail)
           = 200
    \<and> unsubscribe_body (unsubscribe_handler uni UpdateError (js ''GET'') (Some addr) bemail)
        = SuccessPage addr
    \<and> unsubscribe_trace (unsubscribe_handler uni UpdateError (js ''GET'') (Some addr) bemail)
        = [LeadsUpdate (toLowerCase uni addr), ConsoleError (js ''Unsubscribe database error:'')]
    \<and> unsubscribe_status (unsubscribe_handler uni UpdateOk (js ''GET'') (Some addr) bemail)
        = 200
    \<and> unsubscribe_body (unsubscribe_handler uni UpdateOk (js ''GET'') (Some addr) bemail)
        = SuccessPage addr"
  using assms unsubscribeRegex_nonempty [OF assms]
  by (simp add: unsubscribe_handler_def orElse_def)

theorem unsubscribe_get_discards_update_error_witness:
  "rx_test unsubscribeRegex (js ''a@b.co'') \<and>
   unsubscribe_status
     (unsubscribe_handler id UpdateError (js ''GET'') (Some (js ''a@b.co'')) None) = 200 \<and>
   unsubscribe_body
     (unsubscribe_handler id UpdateError (js ''GET'') (Some (js ''a@b.co'')) None)
       = SuccessPage (js ''a@b.co'')"
proof -
  have h: "rx_test unsubscribeRegex (js ''a@b.co'')"
    by (simp add: rx_test_def unsubscribeRegex_def OneOrMore_def js_def notSpaceAt_def
                  isWhiteSpace_def)
  from unsubscribe_get_discards_update_error [OF h, of id None] h show ?thesis by simp
qed

section \<open>api/generate.js: the rate limiter\<close>

lemma rate_cleanup_map_of:
  "distinct (map fst es) \<Longrightarrow>
   map_of (rate_cleanup now es m) k =
     (case map_of es k of
        Some ts \<Rightarrow> (if filter (fresh now) ts = [] then None else Some (filter (fresh now) ts))
      | None \<Rightarrow> map_of m k)"
proof (induction es arbitrary: m)
  case Nil
  then show ?case by simp
next
  case (Cons p es)
  obtain key ts where p: "p = (key, ts)" by (cases p)
  from Cons.prems p have d: "distinct (map fst es)" and nk: "key \<notin> fst ` set es" by auto
  from nk have none: "map_of es key = None" by (simp add: map_of_eq_None_iff)
  show ?case
    using Cons.IH [OF d] none
    by (auto simp: p Let_def fresh_def update_conv' delete_conv' split: option.splits)
qed

lemma rate_cleanup_distinct:
  "distinct (map fst m) \<Longrightarrow> distinct (map fst (rate_cleanup now es m))"
  by (induction es arbitrary: m) (auto simp: Let_def distinct_update distinct_delete)

lemma checkRateLimit_verdict:
  "fst (checkRateLimit now rnd ip m) \<longleftrightarrow> length (filter (fresh now) (window m ip)) < 5"
  by (auto simp: checkRateLimit_def Let_def window_def fresh_def RATE_LIMIT_MAX_REQUESTS_def)

lemma checkRateLimit_rejected:
  "\<not> fst (checkRateLimit now rnd ip m) \<Longrightarrow> snd (checkRateLimit now rnd ip m) = m"
  by (auto simp: checkRateLimit_def Let_def)

lemma fresh_now: "fresh now now"
  by (simp add: fresh_def RATE_LIMIT_WINDOW_def)

lemma window_update:
  "window (AList.update ip v m) k = (if k = ip then v else window m k)"
  by (simp add: window_def update_conv')

lemma window_cleanup:
  "distinct (map fst m) \<Longrightarrow> window (rate_cleanup now m m) k = filter (fresh now) (window m k)"
  by (simp add: window_def rate_cleanup_map_of split: option.splits)

lemma checkRateLimit_admitted:
  assumes "distinct (map fst m)" and "fst (checkRateLimit now rnd ip m)"
  shows "window (snd (checkRateLimit now rnd ip m)) k =
           (if k = ip then filter (fresh now) (window m ip) @ [now]
            else if rnd then filter (fresh now) (window m k) else window m k)"
proof -
  let ?v = "filter (fresh now) (window m ip)"
  let ?m1 = "AList.update ip (?v @ [now]) m"
  from assms(2) have lt: "\<not> RATE_LIMIT_MAX_REQUESTS \<le> length ?v"
    by (auto simp: checkRateLimit_def Let_def window_def fresh_def split: if_splits)
  then have res: "snd (checkRateLimit now rnd ip m) = (if rnd then rate_cleanup now ?m1 ?m1 else ?m1)"
    by (simp add: checkRateLimit_def Let_def window_def fresh_def)
  have d1: "distinct (map fst ?m1)" using assms(1) by (simp add: distinct_update)
  show ?thesis
    by (simp add: res window_update window_cleanup [OF d1] fresh_now)
qed

lemma checkRateLimit_distinct:
  "distinct (map fst m) \<Longrightarrow> distinct (map fst (snd (checkRateLimit now rnd ip m)))"
  by (auto simp: checkRateLimit_def Let_def distinct_update rate_cleanup_distinct)

lemma cacheMiss_status:
  "cacheMiss e c d k = (evs, c', Inr r) \<Longrightarrow> status r = 200"
  by (auto simp: cacheMiss_def Let_def split: db_outcome.splits llm_outcome.splits if_splits prod.splits)

lemma cacheHit_status: "cacheHit e d item = (evs, r) \<Longrightarrow> status r = 200"
  by (auto simp: cacheHit_def Let_def)

lemma tryBody_status:
  "tryBody e req c = (evs, c', Inr r) \<Longrightarrow> status r = 400 \<or> status r = 200"
  by (auto simp: tryBody_def Let_def dest: cacheMiss_status cacheHit_status
           split: sum.splits validation.splits option.splits if_splits prod.splits)

lemma handler_rateLimitMap:
  "rateLimitMap (state (handler e req st)) =
     (if http_method req = js ''POST''
      then snd (checkRateLimit (now_rate e) (random_cleanup e) (getClientIP req) (rateLimitMap st))
      else rateLimitMap st)"
  by (auto simp: handler_def Let_def split: prod.splits sum.splits)

lemma handler_429:
  assumes "http_method req = js ''POST''"
  shows "status (response (handler e req st)) = 429 \<longleftrightarrow>
         \<not> fst (checkRateLimit (now_rate e) (random_cleanup e) (getClientIP req) (rateLimitMap st))"
  using assms
  by (auto simp: handler_def Let_def split: prod.splits sum.splits dest: tryBody_status)

lemma admittedTimes_subset:
  "set (admittedTimes ip st rs) \<subseteq> set (map (\<lambda>p. now_rate (fst p)) rs)"
proof (induction rs arbitrary: st)
  case Nil
  then show ?case by simp
next
  case (Cons p rs)
  obtain e req where p: "p = (e, req)" by (cases p)
  from Cons.IH [of "state (handler e req st)"] show ?case
    by (auto simp: p Let_def)
qed

lemma count_expired_window:
  assumes old: "t \<in> set xs" "inWindow w t" "\<not> fresh now t"
    and later: "\<forall>u \<in> set ys. now \<le> u"
  shows "filter (inWindow w) (xs @ ys) = filter (inWindow w) xs"
proof -
  from old have "w + RATE_LIMIT_WINDOW \<le> now"
    by (simp add: inWindow_def fresh_def)
  with later have "\<forall>u \<in> set ys. \<not> inWindow w u"
    by (auto simp: inWindow_def)
  then have "filter (inWindow w) ys = []" by (simp add: filter_empty_conv)
  then show ?thesis by simp
qed

lemma count_no_expired_window:
  assumes "\<forall>t \<in> set xs. inWindow w t \<longrightarrow> fresh now t"
  shows "filter (inWindow w) (filter (fresh now) xs) = filter (inWindow w) xs"
  using assms by (induction xs) auto

lemma length_filter_filter_le:
  "length (filter P (filter Q xs)) \<le> length (filter P xs)"
  by (induction xs) auto

lemma admitted_bound_gen:
  assumes "distinct (map fst (rateLimitMap st))"
    and "\<forall>k. \<forall>t \<in> set (window (rateLimitMap st) k). \<forall>n \<in> set (map (\<lambda>p. now_rate (fst p)) rs). t \<le> n"
    and "sorted (map (\<lambda>p. now_rate (fst p)) rs)"
    and "\<forall>k w. length (filter (inWindow w) (window (rateLimitMap st) k)) \<le> 5"
  shows "length (filter (inWindow w) (window (rateLimitMap st) ip @ admittedTimes ip st rs)) \<le> 5"
  using assms
proof (induction rs arbitrary: st)
  case Nil
  then show ?case by simp
next
  case (Cons p rs)
  obtain e req where p: "p = (e, req)" by (cases p)
  let ?m = "rateLimitMap st"
  let ?now = "now_rate e"
  let ?r = "handler e req st"
  let ?m' = "rateLimitMap (state ?r)"
  let ?ok = "fst (checkRateLimit ?now (random_cleanup e) (getClientIP req) ?m)"
  let ?A = "admittedTimes ip (state ?r) rs"
  from Cons.prems(3) p have srt: "sorted (map (\<lambda>p. now_rate (fst p)) rs)"
    and le_now: "\<forall>n \<in> set (map (\<lambda>p. now_rate (fst p)) rs). ?now \<le> n" by auto
  from Cons.prems(2) p have old_le: "\<forall>k. \<forall>t \<in> set (window ?m k). t \<le> ?now"
    and old_le_tl: "\<forall>k. \<forall>t \<in> set (window ?m k). \<forall>n \<in> set (map (\<lambda>p. now_rate (fst p)) rs). t \<le> n"
    by auto
  have A_ge: "\<forall>u \<in> set ?A. ?now \<le> u"
    using admittedTimes_subset [of ip "state ?r" rs] le_now by blast
  show ?case
  proof (cases "http_method req = js ''POST'' \<and> ?ok")
    case False
    then have same: "?m' = ?m"
      by (auto simp: handler_rateLimitMap checkRateLimit_rejected)
    from False have hd: "admittedTimes ip st (p # rs) = ?A"
      by (auto simp: p Let_def handler_429)
    have "length (filter (inWindow w) (window ?m' ip @ ?A)) \<le> 5"
      using Cons.prems(1,4) old_le_tl srt by (intro Cons.IH) (simp_all add: same)
    then show ?thesis by (simp add: hd same)
  next
    case True
    then have post: "http_method req = js ''POST''" and ok: ?ok by auto
    let ?ip0 = "getClientIP req"
    have m': "?m' = snd (checkRateLimit ?now (random_cleanup e) ?ip0 ?m)"
      using post by (simp add: handler_rateLimitMap)
    have win: "\<And>k. window ?m' k =
           (if k = ?ip0 then filter (fresh ?now) (window ?m ?ip0) @ [?now]
            else if random_cleanup e then filter (fresh ?now) (window ?m k) else window ?m k)"
      unfolding m' by (rule checkRateLimit_admitted [OF Cons.prems(1) ok])
    have lt5: "length (filter (fresh ?now) (window ?m ?ip0)) < 5"
      using ok by (simp add: checkRateLimit_verdict)
    have hd: "admittedTimes ip st (p # rs) = (if ?ip0 = ip then [?now] else []) @ ?A"
      using post ok by (simp add: p Let_def handler_429)
    have d': "distinct (map fst ?m')"
      unfolding m' by (rule checkRateLimit_distinct [OF Cons.prems(1)])
    have le': "\<forall>k. \<forall>t \<in> set (window ?m' k). \<forall>n \<in> set (map (\<lambda>p. now_rate (fst p)) rs). t \<le> n"
      using old_le_tl le_now by (auto simp: win split: if_splits)
    have cnt': "\<forall>k w. length (filter (inWindow w) (window ?m' k)) \<le> 5"
    proof (intro allI)
      fix k w'
      show "length (filter (inWindow w') (window ?m' k)) \<le> 5"
      proof (cases "k = ?ip0")
        case True
        have "length (filter (inWindow w') (filter (fresh ?now) (window ?m ?ip0)))
                \<le> length (filter (fresh ?now) (window ?m ?ip0))"
          by (rule length_filter_le)
        with lt5 show ?thesis by (simp add: win True)
      next
        case False
        have "length (filter (inWindow w') (filter (fresh ?now) (window ?m k)))
                \<le> length (filter (inWindow w') (window ?m k))"
          by (rule length_filter_filter_le)
        with Cons.prems(4) False show ?thesis
          by (auto simp: win intro: order_trans)
      qed
    qed
    have IH: "length (filter (inWindow w) (window ?m' ip @ ?A)) \<le> 5"
      by (rule Cons.IH [OF d' le' srt cnt'])
    let ?new = "if ?ip0 = ip then [?now] else []"
    have new_ge: "\<forall>u \<in> set (?new @ ?A). ?now \<le> u" using A_ge by auto
    show ?thesis
    proof (cases "\<exists>t \<in> set (window ?m ip). inWindow w t \<and> \<not> fresh ?now t")
      case True
      then obtain t where t: "t \<in> set (window ?m ip)" "inWindow w t" "\<not> fresh ?now t" by blast
      have "filter (inWindow w) (window ?m ip @ (?new @ ?A)) = filter (inWindow w) (window ?m ip)"
        by (rule count_expired_window [OF t new_ge])
      with Cons.prems(4) show ?thesis by (simp add: hd)
    next
      case False
      then have eq: "filter (inWindow w) (filter (fresh ?now) (window ?m ip))
                   = filter (inWindow w) (window ?m ip)"
        by (intro count_no_expired_window) blast
      have "filter (inWindow w) (window ?m' ip @ ?A)
          = filter (inWindow w) (window ?m ip @ ?new @ ?A)"
        using eq by (auto simp: win simp del: filter_filter)
      with IH show ?thesis by (simp add: hd)
    qed
  qed
qed

lemma window_empty: "window [] k = []"
  by (simp add: window_def)

lemma admitted_bound:
  assumes "rateLimitMap st = []" and "sorted (map (\<lambda>p. now_rate (fst p)) rs)"
  shows "length (filter (inWindow w) (admittedTimes ip st rs)) \<le> 5"
  using admitted_bound_gen [of st rs w ip] assms by (simp add: window_empty)

lemma admittedTimes_rate_only:
  "rateLimitMap st = rateLimitMap st' \<Longrightarrow> admittedTimes ip st rs = admittedTimes ip st' rs"
proof (induction rs arbitrary: st st')
  case Nil
  then show ?case by simp
next
  case (Cons p rs)
  obtain e req where p: "p = (e, req)" by (cases p)
  have m: "rateLimitMap (state (handler e req st)) = rateLimitMap (state (handler e req st'))"
    using Cons.prems by (simp add: handler_rateLimitMap)
  have s: "http_method req = js ''POST'' \<Longrightarrow>
        (status (response (handler e req st)) = 429) = (status (response (handler e req st')) = 429)"
    using Cons.prems by (simp add: handler_429)
  show ?case
    using Cons.IH [OF m] s by (auto simp: p Let_def)
qed

lemma admittedTimes_step:
  "admittedTimes ip st ((e, req) # rs) =
     (let v = checkRateLimit (now_rate e) (random_cleanup e) (getClientIP req) (rateLimitMap st) in
      (if http_method req = js ''POST'' \<and> getClientIP req = ip \<and> fst v then [now_rate e] else []) @
      admittedTimes ip
        \<lparr> rateLimitMap = (if http_method req = js ''POST'' then snd v else rateLimitMap st),
          responseCache = [] \<rparr> rs)"
proof -
  have "admittedTimes ip (state (handler e req st)) rs =
        admittedTimes ip
          \<lparr> rateLimitMap = (if http_method req = js ''POST''
               then snd (checkRateLimit (now_rate e) (random_cleanup e) (getClientIP req) (rateLimitMap st))
               else rateLimitMap st),
            responseCache = [] \<rparr> rs"
    by (rule admittedTimes_rate_only) (simp add: handler_rateLimitMap)
  then show ?thesis
    by (auto simp: Let_def handler_429)
qed

text \<open>
  Claim C2. \<open>checkRateLimit\<close> returns false exactly when the window stored for the client
  holds 5 or more timestamps less than 60000 ms old; an admitted request leaves the fresh
  timestamps of the window followed by its own timestamp; a POST request is answered 429
  exactly when \<open>checkRateLimit\<close> returns false. Hence, from a fresh process and with a
  clock that does not run backwards, the handler admits at most 5 requests of any one
  client in any window of 60000 ms.
\<close>

theorem rate_limit_five_per_minute:
  "(\<not> fst (checkRateLimit now rnd ip m) \<longleftrightarrow>
      5 \<le> length (filter (\<lambda>t. now - t < 60000) (window m ip)))
   \<and> (distinct (map fst m) \<and> fst (checkRateLimit now rnd ip m) \<longrightarrow>
        window (snd (checkRateLimit now rnd ip m)) ip
          = filter (\<lambda>t. now - t < 60000) (window m ip) @ [now])
   \<and> (http_method req = js ''POST'' \<longrightarrow>
        (status (response (handler e req st)) = 429 \<longleftrightarrow>
         \<not> fst (checkRateLimit (now_rate e) (random_cleanup e) (getClientIP req)
                  (rateLimitMap st))))
   \<and> (rateLimitMap st0 = [] \<and> sorted (map (\<lambda>p. now_rate (fst p)) rs) \<longrightarrow>
        length (filter (\<lambda>t. w \<le> t \<and> t < w + 60000) (admittedTimes ip' st0 rs)) \<le> 5)"
proof -
  have f: "fresh now = (\<lambda>t. now - t < 60000)" for now
    by (simp add: fresh_def RATE_LIMIT_WINDOW_def)
  have iw: "inWindow w = (\<lambda>t. w \<le> t \<and> t < w + 60000)"
    by (simp add: inWindow_def RATE_LIMIT_WINDOW_def)
  have 1: "\<not> fst (checkRateLimit now rnd ip m) \<longleftrightarrow>
      5 \<le> length (filter (\<lambda>t. now - t < 60000) (window m ip))"
    using checkRateLimit_verdict [of now rnd ip m] by (simp add: f not_less)
  have 2: "window (snd (checkRateLimit now rnd ip m)) ip
          = filter (\<lambda>t. now - t < 60000) (window m ip) @ [now]"
    if "distinct (map fst m)" "fst (checkRateLimit now rnd ip m)"
    using checkRateLimit_admitted [OF that, of ip] by (simp add: f)
  have 3: "status (response (handler e req st)) = 429 \<longleftrightarrow>
         \<not> fst (checkRateLimit (now_rate e) (random_cleanup e) (getClientIP req)
                  (rateLimitMap st))"
    if "http_method req = js ''POST''"
    by (rule handler_429 [OF that])
  have 4: "length (filter (\<lambda>t. w \<le> t \<and> t < w + 60000) (admittedTimes ip' st0 rs)) \<le> 5"
    if "rateLimitMap st0 = []" "sorted (map (\<lambda>p. now_rate (fst p)) rs)"
    using admitted_bound [OF that, of w ip'] by (simp add: iw)
  from 1 2 3 4 show ?thesis by blast
qed

section \<open>api/generate.js: the shape of a run\<close>

lemma steps_append: "steps (xs @ ys) = steps xs @ steps ys"
  by (induction xs) (auto split: option.splits)

lemma handler_run:
  assumes "admits e req st" and "tryBody e req (responseCache st) = (evs, c, out)"
  shows "response (handler e req st) =
           (case out of
              Inr r \<Rightarrow> r
            | Inl err \<Rightarrow>
                \<lparr> status = 500,
                  json = ErrorIdBody
                    (if NODE_ENV e = Some (js ''development'') then message err
                     else js ''An error occurred while generating your description.'')
                    (requestId e req) \<rparr>)"
    and "trace (handler e req st) =
           [Log INFO (js ''Request received''), RateLimit (getClientIP req)] @ evs @
           (case out of Inr r \<Rightarrow> [] | Inl err \<Rightarrow> [Log ERROR (js ''Request failed'')])"
    and "responseCache (state (handler e req st)) = c"
  using assms
  by (auto simp: admits_def handler_def Let_def split: prod.splits sum.splits)

lemma handler_not_admitted:
  "\<not> admits e req st \<Longrightarrow> steps (trace (handler e req st)) = []"
  by (auto simp: admits_def handler_def Let_def split: prod.splits)

lemma tryBody_miss:
  assumes "validateAndSanitizeInput (unicodeLower e) (body req) = Inr (Valid d)"
    and "\<not> cacheHitFor e c d"
  shows "tryBody e req c =
     (let cacheKey = getCacheKey (unicodeLower e) (productName d) (productFeatures d);
          r = cacheMiss e (cleanCache (now_clean e) c) d cacheKey
      in ([Validate, CleanCache, CacheGet cacheKey] @ fst r, fst (snd r), snd (snd r)))"
  using assms
  by (auto simp: tryBody_def cacheHitFor_def Let_def split: option.splits prod.splits)

lemma tryBody_hit:
  assumes "validateAndSanitizeInput (unicodeLower e) (body req) = Inr (Valid d)"
    and "map_of (cleanCache (now_clean e) c)
           (getCacheKey (unicodeLower e) (productName d) (productFeatures d)) = Some item"
    and "now_lookup e - timestamp item < CACHE_TTL"
  shows "tryBody e req c =
     ([Validate, CleanCache,
       CacheGet (getCacheKey (unicodeLower e) (productName d) (productFeatures d))]
        @ fst (cacheHit e d item),
      cleanCache (now_clean e) c, Inr (snd (cacheHit e d item)))"
  using assms
  by (auto simp: tryBody_def Let_def split: option.splits prod.splits)

lemma tryBody_invalid:
  assumes "\<forall>d. validateAndSanitizeInput (unicodeLower e) (body req) \<noteq> Inr (Valid d)"
  shows "fst (tryBody e req c) = [Validate]"
  using assms
  by (auto simp: tryBody_def Let_def split: sum.splits validation.splits)

lemma emailSequence_steps:
  "steps (fst (emailSequence e to)) \<in> {[SEmail], [SEmail, SEmail], [SEmail, SEmail, SEmail]}"
  by (simp add: emailSequence_def Let_def steps_append split: send_outcome.splits)

lemma cacheMiss_steps:
  "\<exists>es. steps (fst (cacheMiss e c d k)) = SUpsert # es \<and>
        (es = [] \<or> (\<exists>n. es = SLlm # replicate n SEmail))"
proof -
  have em: "\<exists>n. steps (fst (emailSequence e (email d))) = replicate n SEmail"
  proof -
    from emailSequence_steps [of e "email d"]
    consider "steps (fst (emailSequence e (email d))) = [SEmail]"
      | "steps (fst (emailSequence e (email d))) = [SEmail, SEmail]"
      | "steps (fst (emailSequence e (email d))) = [SEmail, SEmail, SEmail]" by auto
    then show ?thesis
    proof cases
      case 1 then show ?thesis by (intro exI [of _ 1]) simp
    next
      case 2 then show ?thesis by (intro exI [of _ 2]) (simp add: numeral_2_eq_2)
    next
      case 3 then show ?thesis by (intro exI [of _ 3]) (simp add: numeral_3_eq_3)
    qed
  qed
  then obtain n where n: "steps (fst (emailSequence e (email d))) = replicate n SEmail" ..
  show ?thesis
    using n
    by (cases "db_upsert e"; cases "llm e")
       (auto simp: cacheMiss_def Let_def steps_append split: prod.splits if_splits)
qed

lemma cacheHit_steps:
  "steps (fst (cacheHit e d item)) = [SUpsert] \<or> steps (fst (cacheHit e d item)) = [SUpsert, SEmail]"
  by (cases "db_upsert e"; cases "send1 e") (auto simp: cacheHit_def Let_def steps_append)

lemma sorted_replicate_rank: "sorted (map codeRank (replicate n SEmail))"
  by (induction n) auto

lemma tryBody_steps_sorted: "sorted (map codeRank (steps (fst (tryBody e req c))))"
proof (cases "validateAndSanitizeInput (unicodeLower e) (body req)")
  case (Inl x)
  then show ?thesis by (simp add: tryBody_def)
next
  case (Inr v)
  show ?thesis
  proof (cases v)
    case (Invalid m)
    with Inr show ?thesis by (simp add: tryBody_def)
  next
    case (Valid d)
    let ?k = "getCacheKey (unicodeLower e) (productName d) (productFeatures d)"
    let ?c1 = "cleanCache (now_clean e) c"
    show ?thesis
    proof (cases "cacheHitFor e c d")
      case False
      from cacheMiss_steps [of e ?c1 d ?k] obtain es where
        es: "steps (fst (cacheMiss e ?c1 d ?k)) = SUpsert # es"
            "es = [] \<or> (\<exists>n. es = SLlm # replicate n SEmail)" by blast
      from es(2) have "sorted (map codeRank (SValidate # SUpsert # es))"
        using sorted_replicate_rank by (auto simp: in_set_replicate)
      then show ?thesis
        using Inr Valid False es(1)
        by (simp add: tryBody_miss [OF _ False] Let_def steps_append)
    next
      case True
      then obtain item where
        item: "map_of ?c1 ?k = Some item" "now_lookup e - timestamp item < CACHE_TTL"
        by (auto simp: cacheHitFor_def split: option.splits)
      from Inr Valid have v: "validateAndSanitizeInput (unicodeLower e) (body req) = Inr (Valid d)"
        by simp
      show ?thesis
        using cacheHit_steps [of e d item]
        by (auto simp: tryBody_hit [OF v item] steps_append)
    qed
  qed
qed

lemma handler_steps: 
  "steps (trace (handler e req st)) = 
     (if admits e req st then steps (fst (tryBody e req (responseCache st))) else [])"
proof (cases "admits e req st")
  case False
  then show ?thesis by (simp add: handler_not_admitted)
next
  case True
  obtain evs c out where t: "tryBody e req (responseCache st) = (evs, c, out)"
    by (cases "tryBody e req (responseCache st)")
  show ?thesis
    using True by (simp add: handler_run(2) [OF True t] t steps_append split: sum.splits)
qed

lemma cacheMiss_steps_success:
  assumes "db_upsert e = DbOk \<or> db_upsert e = DbError"
    and "llm e = LlmText text" and "trim text \<noteq> []"
  shows "\<exists>n \<ge> 1. steps (fst (cacheMiss e c d k)) = [SUpsert, SLlm] @ replicate n SEmail"
proof -
  from assms(3) have ne: "text \<noteq> []" by (auto simp: trim_def)
  have st: "steps (fst (cacheMiss e c d k)) = [SUpsert, SLlm] @ steps (fst (emailSequence e (email d)))"
    using assms ne by (auto simp: cacheMiss_def Let_def steps_append split: prod.splits)
  from emailSequence_steps [of e "email d"]
  consider "steps (fst (emailSequence e (email d))) = [SEmail]"
    | "steps (fst (emailSequence e (email d))) = [SEmail, SEmail]"
    | "steps (fst (emailSequence e (email d))) = [SEmail, SEmail, SEmail]" by auto
  then show ?thesis
  proof cases
    case 1 then show ?thesis by (intro exI [of _ 1]) (simp add: st)
  next
    case 2 then show ?thesis by (intro exI [of _ 2]) (simp add: st numeral_2_eq_2)
  next
    case 3 then show ?thesis by (intro exI [of _ 3]) (simp add: st numeral_3_eq_3)
  qed
qed

text \<open>
  Claim C1, as the code has it. In every run of the generate handler the steps come in the
  order: validate the input, upsert the lead row in the data store, call the generative-AI
  provider, call the email provider. (The specification states the model call before the
  upsert; the source has the upsert as its STEP 1 and the model call as its STEP 2. A step
  that a run does not reach is absent from its trace: a cache hit makes no model call.) On
  a cache miss where the upsert returns and the model yields a non-empty description, the
  steps are exactly these four, in this order, the last one once per email sent.
\<close>

theorem handler_step_order:
  "sorted (map codeRank (steps (trace (handler e req st)))) \<and>
   (admits e req st \<and>
    validateAndSanitizeInput (unicodeLower e) (body req) = Inr (Valid d) \<and>
    \<not> cacheHitFor e (responseCache st) d \<and>
    (db_upsert e = DbOk \<or> db_upsert e = DbError) \<and>
    llm e = LlmText text \<and> trim text \<noteq> [] \<longrightarrow>
    (\<exists>n \<ge> 1. steps (trace (handler e req st)) = [SValidate, SUpsert, SLlm] @ replicate n SEmail))"
proof (intro conjI impI)
  show "sorted (map codeRank (steps (trace (handler e req st))))"
    by (simp add: handler_steps tryBody_steps_sorted)
next
  assume a: "admits e req st \<and>
    validateAndSanitizeInput (unicodeLower e) (body req) = Inr (Valid d) \<and>
    \<not> cacheHitFor e (responseCache st) d \<and>
    (db_upsert e = DbOk \<or> db_upsert e = DbError) \<and>
    llm e = LlmText text \<and> trim text \<noteq> []"
  then have v: "validateAndSanitizeInput (unicodeLower e) (body req) = Inr (Valid d)"
    and m: "\<not> cacheHitFor e (responseCache st) d" by auto
  from a cacheMiss_steps_success [of e "text" "cleanCache (now_clean e) (responseCache st)" d
      "getCacheKey (unicodeLower e) (productName d) (productFeatures d)"]
  obtain n where "n \<ge> 1"
    "steps (fst (cacheMiss e (cleanCache (now_clean e) (responseCache st)) d
       (getCacheKey (unicodeLower e) (productName d) (productFeatures d))))
      = [SUpsert, SLlm] @ replicate n SEmail" by blast
  with a show "\<exists>n \<ge> 1. steps (trace (handler e req st)) = [SValidate, SUpsert, SLlm] @ replicate n SEmail"
    by (auto simp: handler_steps tryBody_miss [OF v m] Let_def steps_append)
qed

section \<open>api/generate.js: the response cache\<close>

lemma cleanCache_loop_filter:
  "cleanCache_loop now es c =
     filter (\<lambda>(k, v). \<not> (\<exists>v'. (k, v') \<in> set es \<and> expired now v')) c"
proof (induction es arbitrary: c)
  case Nil
  then show ?case by simp
next
  case (Cons p es)
  obtain key val where p: "p = (key, val)" by (cases p)
  show ?case
    by (auto simp: p Cons.IH expired_def AList.delete_eq intro!: filter_cong)
qed

lemma cleanCache_filter:
  assumes "distinct (map fst c)"
  shows "cleanCache now c = filter (\<lambda>(k, v). \<not> expired now v) c"
proof -
  have "(k, v') \<in> set c \<Longrightarrow> (k, v) \<in> set c \<Longrightarrow> v' = v" for k v v'
    using assms by (meson eq_key_imp_eq_value)
  then show ?thesis
    unfolding cleanCache_def cleanCache_loop_filter
    by (intro filter_cong) auto
qed

lemma cleanCache_distinct:
  "distinct (map fst c) \<Longrightarrow> distinct (map fst (cleanCache now c))"
  by (simp add: cleanCache_filter distinct_map_filter)

lemma cleanCache_map_of:
  assumes "distinct (map fst c)"
  shows "map_of (cleanCache now c) k =
           (case map_of c k of
              Some v \<Rightarrow> if expired now v then None else Some v
            | None \<Rightarrow> None)"
proof (cases "map_of c k")
  case None
  then have "k \<notin> fst ` set c" by (simp add: map_of_eq_None_iff)
  then have "k \<notin> fst ` set (cleanCache now c)"
    by (auto simp: cleanCache_filter [OF assms])
  then have "map_of (cleanCache now c) k = None" by (simp add: map_of_eq_None_iff)
  then show ?thesis using None by simp
next
  case (Some v)
  then have mem: "(k, v) \<in> set c" by (rule map_of_SomeD)
  show ?thesis
  proof (cases "expired now v")
    case True
    have "k \<notin> fst ` set (cleanCache now c)"
    proof
      assume "k \<in> fst ` set (cleanCache now c)"
      then obtain v' where "(k, v') \<in> set c" "\<not> expired now v'"
        by (auto simp: cleanCache_filter [OF assms])
      with mem assms have "v' = v" by (meson eq_key_imp_eq_value)
      with True \<open>\<not> expired now v'\<close> show False by simp
    qed
    then have "map_of (cleanCache now c) k = None" by (simp add: map_of_eq_None_iff)
    then show ?thesis using Some True by simp
  next
    case False
    with mem have "(k, v) \<in> set (cleanCache now c)"
      by (auto simp: cleanCache_filter [OF assms])
    then have "map_of (cleanCache now c) k = Some v"
      using cleanCache_distinct [OF assms] by (simp add: map_of_eq_Some_iff)
    then show ?thesis using Some False by simp
  qed
qed

lemma last_dropWhile_ne: "dropWhile P xs \<noteq> [] \<Longrightarrow> last (dropWhile P xs) = last xs"
  by (induction xs) (auto split: if_splits)

lemma trim_ends:
  assumes "trim s \<noteq> []"
  shows "\<not> isWhiteSpace (hd (trim s))" and "\<not> isWhiteSpace (last (trim s))"
proof -
  let ?u = "dropWhile isWhiteSpace s"
  let ?v = "dropWhile isWhiteSpace (rev ?u)"
  from assms have v: "?v \<noteq> []" by (simp add: trim_def)
  have u: "?u \<noteq> []"
  proof
    assume a: "?u = []"
    have "?v = []" unfolding a by simp
    with v show False by contradiction
  qed
  have "hd (trim s) = last ?v" using v by (simp add: trim_def hd_rev)
  also have "\<dots> = last (rev ?u)" using v by (rule last_dropWhile_ne)
  also have "\<dots> = hd ?u" using u by (simp add: last_rev)
  finally show "\<not> isWhiteSpace (hd (trim s))" using hd_dropWhile [OF u] by simp
  have "last (trim s) = hd ?v" using v by (simp add: trim_def last_rev)
  then show "\<not> isWhiteSpace (last (trim s))" using hd_dropWhile [OF v] by simp
qed

lemma trim_id:
  assumes "s = [] \<or> (\<not> isWhiteSpace (hd s) \<and> \<not> isWhiteSpace (last s))"
  shows "trim s = s"
proof (cases "s = []")
  case True
  then show ?thesis by (simp add: trim_def)
next
  case False
  with assms have h: "\<not> isWhiteSpace (hd s)" and l: "\<not> isWhiteSpace (last s)" by auto
  from False h have 1: "dropWhile isWhiteSpace s = s" by (cases s) auto
  from False l have 2: "dropWhile isWhiteSpace (rev s) = rev s"
    by (cases "rev s") (auto simp: last_rev [symmetric] hd_rev)
  show ?thesis by (simp add: trim_def 1 2)
qed

lemma trim_idem: "trim (trim s) = trim s"
  using trim_ends [of s] by (intro trim_id) blast

lemma cleanedBefore_no_lookup:
  "list_all (\<lambda>ev. \<not> isCacheGet ev) evs \<Longrightarrow> cleanedBefore p evs"
  by (induction evs arbitrary: p) auto

lemma emailSequence_no_lookup:
  "list_all (\<lambda>ev. \<not> isCacheGet ev) (fst (emailSequence e to))"
  by (simp add: emailSequence_def Let_def split: send_outcome.splits)

lemma cacheMiss_no_lookup:
  "list_all (\<lambda>ev. \<not> isCacheGet ev) (fst (cacheMiss e c d k))"
  using emailSequence_no_lookup [of e "email d"]
  by (cases "db_upsert e"; cases "llm e")
     (auto simp: cacheMiss_def Let_def split: prod.splits if_splits)

lemma cacheHit_no_lookup:
  "list_all (\<lambda>ev. \<not> isCacheGet ev) (fst (cacheHit e d item))"
  by (cases "db_upsert e"; cases "send1 e") (auto simp: cacheHit_def Let_def)

lemma cacheHit_no_llm:
  "list_all (\<lambda>ev. \<not> isLlmCall ev) (fst (cacheHit e d item))"
  by (cases "db_upsert e"; cases "send1 e") (auto simp: cacheHit_def Let_def)

lemma tryBody_lookups:
  "fst (tryBody e req c) = [Validate] \<or>
   (\<exists>k rest. fst (tryBody e req c) = [Validate, CleanCache, CacheGet k] @ rest \<and>
      list_all (\<lambda>ev. \<not> isCacheGet ev) rest)"
proof (cases "\<exists>d. validateAndSanitizeInput (unicodeLower e) (body req) = Inr (Valid d)")
  case False
  then show ?thesis by (simp add: tryBody_invalid)
next
  case True
  then obtain d where v: "validateAndSanitizeInput (unicodeLower e) (body req) = Inr (Valid d)" ..
  let ?k = "getCacheKey (unicodeLower e) (productName d) (productFeatures d)"
  let ?c1 = "cleanCache (now_clean e) c"
  show ?thesis
  proof (cases "cacheHitFor e c d")
    case False
    show ?thesis
      using cacheMiss_no_lookup [of e ?c1 d ?k]
      by (simp add: tryBody_miss [OF v False] Let_def)
  next
    case True
    then obtain item where
      item: "map_of ?c1 ?k = Some item" "now_lookup e - timestamp item < CACHE_TTL"
      by (auto simp: cacheHitFor_def split: option.splits)
    show ?thesis
      using cacheHit_no_lookup [of e d item]
      by (simp add: tryBody_hit [OF v item])
  qed
qed

lemma handler_trace_cases:
  "trace (handler e req st) = [Log INFO (js ''Request received'')] \<or>
   trace (handler e req st) = [Log INFO (js ''Request received''), RateLimit (getClientIP req)] \<or>
   (\<exists>tl. list_all (\<lambda>ev. \<not> isCacheGet ev) tl \<and> 
     trace (handler e req st) =
       [Log INFO (js ''Request received''), RateLimit (getClientIP req)] @
       fst (tryBody e req (responseCache st)) @ tl)"
proof (cases "admits e req st")
  case False
  then show ?thesis
    by (auto simp: admits_def handler_def Let_def split: prod.splits)
next
  case True
  obtain evs c out where t: "tryBody e req (responseCache st) = (evs, c, out)"
    by (cases "tryBody e req (responseCache st)")
  have "list_all (\<lambda>ev. \<not> isCacheGet ev)
          (case out of Inr r \<Rightarrow> [] | Inl err \<Rightarrow> [Log ERROR (js ''Request failed'')])"
    by (simp split: sum.splits)
  then show ?thesis
    using handler_run(2) [OF True t] t by auto
qed

lemma handler_lookups_cleaned: "cleanedBefore False (trace (handler e req st))"
proof -
  from handler_trace_cases [of e req st]
  consider "trace (handler e req st) = [Log INFO (js ''Request received'')]"
    | "trace (handler e req st) = [Log INFO (js ''Request received''), RateLimit (getClientIP req)]"
    | tl where "list_all (\<lambda>ev. \<not> isCacheGet ev) tl"
        "trace (handler e req st) =
           [Log INFO (js ''Request received''), RateLimit (getClientIP req)] @
           fst (tryBody e req (responseCache st)) @ tl"
    by blast
  then show ?thesis
  proof cases
    case 1 then show ?thesis by simp
  next
    case 2 then show ?thesis by simp
  next
    case 3
    from tryBody_lookups [of e req "responseCache st"] show ?thesis
    proof
      assume "fst (tryBody e req (responseCache st)) = [Validate]"
      with 3 show ?thesis by (simp add: cleanedBefore_no_lookup)
    next
      assume "\<exists>k rest. fst (tryBody e req (responseCache st)) =
                 [Validate, CleanCache, CacheGet k] @ rest \<and>
                 list_all (\<lambda>ev. \<not> isCacheGet ev) rest"
      then obtain k rest where
        "fst (tryBody e req (responseCache st)) = [Validate, CleanCache, CacheGet k] @ rest"
        "list_all (\<lambda>ev. \<not> isCacheGet ev) rest" by blast
      with 3 show ?thesis by (simp add: cleanedBefore_no_lookup)
    qed
  qed
qed

text \<open>
  Claim C4. After \<open>cleanCache()\<close> at time \<open>now\<close> the cache is the old cache without the
  entries whose timestamp is more than 300000 ms before \<open>now\<close>: no remaining entry is
  older than that, and every entry that is not older is still there under its key with the
  same description and timestamp. In every run of the generate handler each cache lookup
  comes directly after a \<open>cleanCache()\<close>.
\<close>

theorem cleanCache_expiry:
  assumes "distinct (map fst c)"
  shows "cleanCache now c = filter (\<lambda>(k, v). \<not> now - timestamp v > 300000) c
    \<and> (\<forall>k v. map_of (cleanCache now c) k = Some v \<longrightarrow> \<not> now - timestamp v > 300000)
    \<and> (\<forall>k v. map_of c k = Some v \<and> \<not> now - timestamp v > 300000
            \<longrightarrow> map_of (cleanCache now c) k = Some v)
    \<and> cleanedBefore False (trace (handler e req st))"
  using cleanCache_filter [OF assms, of now] cleanCache_map_of [OF assms, of now]
    handler_lookups_cleaned [of e req st]
  by (auto simp: expired_def CACHE_TTL_def split: option.splits if_splits)

lemma cacheHitFor_fresh:
  assumes d: "distinct (map fst c)"
    and item: "map_of c (getCacheKey (unicodeLower e) (productName d) (productFeatures d)) = Some item"
    and young: "now_lookup e - timestamp item < CACHE_TTL"
    and clock: "now_clean e \<le> now_lookup e"
  shows "map_of (cleanCache (now_clean e) c)
           (getCacheKey (unicodeLower e) (productName d) (productFeatures d)) = Some item"
proof -
  from young clock have "\<not> expired (now_clean e) item" by (simp add: expired_def)
  with item show ?thesis by (simp add: cleanCache_map_of [OF d])
qed

text \<open>
  The key is the lower-cased, trimmed name, a colon, and the first 200 code units of the
  lower-cased, trimmed features.
\<close>

lemma getCacheKey_normalizes:
  "getCacheKey uni pn pf
     = trim (toLowerCase uni pn) @ [58] @ take 200 (trim (toLowerCase uni pf))"
  by (simp add: getCacheKey_def slice0_def js_def Let_def)

lemma getCacheKey_example:
  "getCacheKey id (js '' Desk LAMP '') (js ''  '' @ replicate 250 66)
     = js ''desk lamp:'' @ replicate 200 98"
  by (simp add: getCacheKey_normalizes toLowerCase_def js_def asciiLower_def trim_def
                isWhiteSpace_def dropWhile_replicate list_all_iff)


text \<open>
  Claim C3. Take a POST request that passes the rate limiter and the validation, and whose
  normalized cache key -- the lower-cased, trimmed product name, a colon, and the
  lower-cased, trimmed features cut to 200 code units, which is what \<open>getCacheKey\<close>
  returns and what the handler looks up -- maps to an entry less than 300000 ms old at the
  lookup, the clock not running backwards between \<open>cleanCache()\<close> and the lookup. Then the
  handler answers 200 with the cached description, and its trace has no call to the
  generative model. (The cache is one the handler built: keys once, descriptions trimmed.)
\<close>

theorem cache_hit_serves_cached:
  assumes "admits e req st"
    and "validateAndSanitizeInput (unicodeLower e) (body req) = Inr (Valid d)"
    and "distinct (map fst (responseCache st))"
    and "cacheTrimmed (responseCache st)"
    and "map_of (responseCache st)
           (trim (toLowerCase (unicodeLower e) (productName d)) @ js '':'' @
            take 200 (trim (toLowerCase (unicodeLower e) (productFeatures d)))) = Some item"
    and "now_lookup e - timestamp item < 300000"
    and "now_clean e \<le> now_lookup e"
  shows "getCacheKey (unicodeLower e) (productName d) (productFeatures d)
           = trim (toLowerCase (unicodeLower e) (productName d)) @ js '':'' @
             take 200 (trim (toLowerCase (unicodeLower e) (productFeatures d)))
    \<and> CacheGet (trim (toLowerCase (unicodeLower e) (productName d)) @ js '':'' @
                 take 200 (trim (toLowerCase (unicodeLower e) (productFeatures d))))
          \<in> set (trace (handler e req st))
    \<and> status (response (handler e req st)) = 200
    \<and> json (response (handler e req st)) = DescriptionBody (description item)
    \<and> list_all (\<lambda>ev. \<not> isLlmCall ev) (trace (handler e req st))"
proof -
  let ?k = "getCacheKey (unicodeLower e) (productName d) (productFeatures d)"
  let ?n = "trim (toLowerCase (unicodeLower e) (productName d)) @ js '':'' @
            take 200 (trim (toLowerCase (unicodeLower e) (productFeatures d)))"
  have key: "?k = ?n" by (simp add: getCacheKey_normalizes js_def)
  from assms(5) have found: "map_of (responseCache st) ?k = Some item" by (simp only: key)
  from assms(6) have young: "now_lookup e - timestamp item < CACHE_TTL"
    by (simp add: CACHE_TTL_def)
  have kept: "map_of (cleanCache (now_clean e) (responseCache st)) ?k = Some item"
    by (rule cacheHitFor_fresh [OF assms(3) found young assms(7)])
  note t = tryBody_hit [OF assms(2) kept young]
  from found have "(?k, item) \<in> set (responseCache st)" by (rule map_of_SomeD)
  with assms(4) have tr: "trim (description item) = description item"
    by (auto simp: cacheTrimmed_def list_all_iff)
  have r: "snd (cacheHit e d item) = \<lparr> status = 200, json = DescriptionBody (description item) \<rparr>"
    by (simp add: cacheHit_def Let_def tr)
  have looked: "CacheGet ?k \<in> set (trace (handler e req st))"
    by (simp add: handler_run(2) [OF assms(1) t])
  have rest: "status (response (handler e req st)) = 200
    \<and> json (response (handler e req st)) = DescriptionBody (description item)
    \<and> list_all (\<lambda>ev. \<not> isLlmCall ev) (trace (handler e req st))"
    using handler_run(1,2) [OF assms(1) t] cacheHit_no_llm [of e d item]
    by (simp add: r)
  from key looked rest show ?thesis by (simp only: key) 
qed

section \<open>api/generate.js: what the handler keeps true of the cache\<close>

lemma cacheTrimmed_cleanCache:
  "distinct (map fst c) \<Longrightarrow> cacheTrimmed c \<Longrightarrow> cacheTrimmed (cleanCache now c)"
  by (auto simp: cleanCache_filter cacheTrimmed_def list_all_iff)

lemma cacheTrimmed_update:
  "cacheTrimmed c \<Longrightarrow> trim (description v) = description v \<Longrightarrow>
   cacheTrimmed (AList.update k v c)"
  by (induction c) (auto simp: cacheTrimmed_def)

lemma cacheMiss_cacheOk:
  assumes "cacheOk c"
  shows "cacheOk (fst (snd (cacheMiss e c d k)))"
  using assms
  by (cases "db_upsert e"; cases "llm e")
     (auto simp: cacheMiss_def Let_def cacheOk_def distinct_update cacheTrimmed_update trim_idem
           split: prod.splits if_splits)

lemma tryBody_cacheOk:
  assumes "cacheOk c"
  shows "cacheOk (fst (snd (tryBody e req c)))"
proof (cases "\<exists>d. validateAndSanitizeInput (unicodeLower e) (body req) = Inr (Valid d)")
  case False
  then show ?thesis using assms
    by (auto simp: tryBody_def split: sum.splits validation.splits)
next
  case True
  then obtain d where v: "validateAndSanitizeInput (unicodeLower e) (body req) = Inr (Valid d)" ..
  let ?k = "getCacheKey (unicodeLower e) (productName d) (productFeatures d)"
  let ?c1 = "cleanCache (now_clean e) c"
  from assms have c1: "cacheOk ?c1"
    by (simp add: cacheOk_def cleanCache_distinct cacheTrimmed_cleanCache)
  show ?thesis
  proof (cases "cacheHitFor e c d")
    case False
    show ?thesis
      using cacheMiss_cacheOk [OF c1, of e d ?k]
      by (simp add: tryBody_miss [OF v False] Let_def)
  next
    case True
    then obtain item where
      item: "map_of ?c1 ?k = Some item" "now_lookup e - timestamp item < CACHE_TTL"
      by (auto simp: cacheHitFor_def split: option.splits)
    show ?thesis using c1 by (simp add: tryBody_hit [OF v item])
  qed
qed

lemma handler_responseCache:
  "responseCache (state (handler e req st)) =
     (if admits e req st then fst (snd (tryBody e req (responseCache st))) else responseCache st)"
  by (auto simp: admits_def handler_def Let_def split: prod.splits sum.splits)

lemma handler_cacheOk:
  "cacheOk (responseCache st) \<Longrightarrow> cacheOk (responseCache (state (handler e req st)))"
  by (simp add: handler_responseCache tryBody_cacheOk)

lemma fresh_state_cacheOk: "cacheOk (responseCache fresh_state)"
  by (simp add: fresh_state_def cacheOk_def cacheTrimmed_def)

section \<open>api/generate.js: errors\<close>









text \<open>
  Claim C8. On the cache-miss path, when the upsert resolves with an error, the handler logs
  it as a warning and goes on to call the generative model (upsert, warning and model call
  are consecutive in the trace); when the model then returns a non-empty description, the
  response is 200 with the trimmed description.
\<close>

theorem upsert_error_does_not_abort:
  assumes "admits e req st"
    and "validateAndSanitizeInput (unicodeLower e) (body req) = Inr (Valid d)"
    and "\<not> cacheHitFor e (responseCache st) d"
    and "db_upsert e = DbError"
  shows "(\<exists>pre post. trace (handler e req st) =
            pre @ [DbUpsert (email d) (productName d),
                   Log WARN (js ''Database error occurred''),
                   LlmCall (productName d) (productFeatures d)] @ post)
    \<and> (llm e = LlmText text \<and> trim text \<noteq> [] \<longrightarrow>
          response (handler e req st)
            = \<lparr> status = 200, json = DescriptionBody (trim text) \<rparr>)"
proof -
  let ?k = "getCacheKey (unicodeLower e) (productName d) (productFeatures d)"
  let ?c1 = "cleanCache (now_clean e) (responseCache st)"
  let ?seg = "[DbUpsert (email d) (productName d), Log WARN (js ''Database error occurred''),
               LlmCall (productName d) (productFeatures d)]"
  obtain evs c out where cm: "cacheMiss e ?c1 d ?k = (evs, c, out)"
    by (cases "cacheMiss e ?c1 d ?k")
  have t: "tryBody e req (responseCache st) = ([Validate, CleanCache, CacheGet ?k] @ evs, c, out)"
    by (simp add: tryBody_miss [OF assms(2,3)] Let_def cm)
  have seg: "\<exists>post. evs = Log INFO (js ''Cache miss'') # ?seg @ post"
    using cm assms(4)
    by (cases "llm e") (auto simp: cacheMiss_def Let_def split: prod.splits if_splits)
  then obtain post where post: "evs = Log INFO (js ''Cache miss'') # ?seg @ post" ..
  have 1: "\<exists>pre post. trace (handler e req st) = pre @ ?seg @ post"
  proof (intro exI)
    show "trace (handler e req st) =
      ([Log INFO (js ''Request received''), RateLimit (getClientIP req), Validate, CleanCache,
        CacheGet ?k, Log INFO (js ''Cache miss'')]) @ ?seg @
      (post @ (case out of Inr r \<Rightarrow> [] | Inl err \<Rightarrow> [Log ERROR (js ''Request failed'')]))"
      by (simp add: handler_run(2) [OF assms(1) t] post)
  qed
  have 2: "response (handler e req st) = \<lparr> status = 200, json = DescriptionBody (trim text) \<rparr>"
    if "llm e = LlmText text" "trim text \<noteq> []"
  proof -
    from that have "text \<noteq> []" by (auto simp: trim_def)
    with that cm assms(4) have "out = Inr \<lparr> status = 200, json = DescriptionBody (trim text) \<rparr>"
      by (auto simp: cacheMiss_def Let_def split: prod.splits)
    then show ?thesis by (simp add: handler_run(1) [OF assms(1) t])
  qed
  from 1 2 show ?thesis by blast
qed

section \<open>api/generate.js: the email sequence\<close>





section \<open>api/generate.js: the claims on the example inputs\<close>

lemmas validate_eval = validateAndSanitizeInput_def sanitizeText_def trim_def slice0_def
  toLowerCase_def asciiLower_def isWhiteSpace_def rx_test_def emailRegex_def OneOrMore_def
  emailLocalChar_def emailDomainChar_def alnum_def js_def Let_def

lemma example_valid:
  "unicodeLower e = id \<Longrightarrow>
   validateAndSanitizeInput (unicodeLower e) (body example_request) = Inr (Valid example_data)"
  by (simp add: example_request_def example_data_def validate_eval)

lemma example_admits: "admits e example_request fresh_state"
  by (simp add: admits_def example_request_def fresh_state_def
                checkRateLimit_def RATE_LIMIT_MAX_REQUESTS_def Let_def)

lemma example_admits_cached: "admits e example_request cached_state"
  by (simp add: admits_def example_request_def cached_state_def
                checkRateLimit_def RATE_LIMIT_MAX_REQUESTS_def Let_def)

lemma example_key:
  "unicodeLower e = id \<Longrightarrow>
   getCacheKey (unicodeLower e) (productName example_data) (productFeatures example_data)
     = js ''lamp:bright bled/b''"
  by (simp add: example_data_def getCacheKey_def validate_eval)

lemma example_miss: "\<not> cacheHitFor e (responseCache fresh_state) example_data"
  by (simp add: cacheHitFor_def fresh_state_def cleanCache_def)

lemma example_lower: "unicodeLower example_env = id"
  by (simp add: example_env_def)

lemma example_steps:
  "steps (trace (handler example_env example_request fresh_state))
     = [SValidate, SUpsert, SLlm, SEmail, SEmail, SEmail]"
proof -
  have "steps (fst (cacheMiss example_env c example_data k))
          = [SUpsert, SLlm, SEmail, SEmail, SEmail]" for c k
    by (simp add: cacheMiss_def emailSequence_def example_env_def orElse_def trim_def
                  isWhiteSpace_def js_def Let_def)
  then show ?thesis
    by (simp add: handler_steps example_admits
          tryBody_miss [OF example_valid [OF example_lower] example_miss] Let_def)
qed

text \<open>
  The order stated in claim C1 (validate, model, upsert, email) fails on the example
  request: its steps are validate, upsert, model, email, email, email.
\<close>

theorem claimed_order_counterexample:
  "\<not> sorted (map claimedRank (steps (trace (handler example_env example_request fresh_state))))"
  by (simp add: example_steps)

text \<open>The steps of the example request, in the order of the source.\<close>

theorem handler_step_order_witness:
  "admits example_env example_request fresh_state \<and>
   validateAndSanitizeInput id (body example_request) = Inr (Valid example_data) \<and>
   \<not> cacheHitFor example_env (responseCache fresh_state) example_data \<and>
   steps (trace (handler example_env example_request fresh_state))
     = [SValidate, SUpsert, SLlm, SEmail, SEmail, SEmail] \<and>
   sorted (map codeRank (steps (trace (handler example_env example_request fresh_state)))) \<and>
   (\<exists>n \<ge> 1. steps (trace (handler example_env example_request fresh_state))
      = [SValidate, SUpsert, SLlm] @ replicate n SEmail)"
proof -
  let ?e = "example_env"
  have l: "unicodeLower ?e = id" by (simp add: example_env_def)
  have v: "validateAndSanitizeInput (unicodeLower ?e) (body example_request)
             = Inr (Valid example_data)" by (rule example_valid [OF l])
  have a: "admits ?e example_request fresh_state" by (rule example_admits)
  have m: "\<not> cacheHitFor ?e (responseCache fresh_state) example_data" by (rule example_miss)
  have env: "(db_upsert ?e = DbOk \<or> db_upsert ?e = DbError) \<and> llm ?e = LlmText (js '' A fine lamp. '')"
    by (simp add: example_env_def)
  have ne: "trim (js '' A fine lamp. '') \<noteq> []"
    by (simp add: trim_def isWhiteSpace_def js_def)
  note inst = handler_step_order [of ?e example_request fresh_state example_data "js '' A fine lamp. ''"]
  from inst have s: "sorted (map codeRank (steps (trace (handler ?e example_request fresh_state))))"
    by (rule conjunct1)
  from inst a v m env ne
  have ex: "\<exists>n \<ge> 1. steps (trace (handler ?e example_request fresh_state))
      = [SValidate, SUpsert, SLlm] @ replicate n SEmail" by blast
  from a v m example_steps s ex show ?thesis by (simp add: l [symmetric])
qed

text \<open>The example request with the upsert resolving with an error.\<close>

theorem upsert_error_does_not_abort_witness:
  "admits (example_env\<lparr>db_upsert := DbError\<rparr>) example_request fresh_state \<and>
   validateAndSanitizeInput id (body example_request) = Inr (Valid example_data) \<and>
   \<not> cacheHitFor (example_env\<lparr>db_upsert := DbError\<rparr>) (responseCache fresh_state) example_data \<and>
   response (handler (example_env\<lparr>db_upsert := DbError\<rparr>) example_request fresh_state)
     = \<lparr> status = 200, json = DescriptionBody (js ''A fine lamp.'') \<rparr>"
proof -
  let ?e = "example_env\<lparr>db_upsert := DbError\<rparr>"
  have l: "unicodeLower ?e = id" by (simp add: example_env_def)
  have v: "validateAndSanitizeInput (unicodeLower ?e) (body example_request)
             = Inr (Valid example_data)" by (rule example_valid [OF l])
  have a: "admits ?e example_request fresh_state" by (rule example_admits)
  have m: "\<not> cacheHitFor ?e (responseCache fresh_state) example_data" by (rule example_miss)
  have db: "db_upsert ?e = DbError" by simp
  have t: "llm ?e = LlmText (js '' A fine lamp. '') \<and> trim (js '' A fine lamp. '') \<noteq> []"
    by (simp add: example_env_def trim_def isWhiteSpace_def js_def)
  have tr: "trim (js '' A fine lamp. '') = js ''A fine lamp.''"
    by (simp add: trim_def isWhiteSpace_def js_def)
  from upsert_error_does_not_abort [OF a v m db, of "js '' A fine lamp. ''"] t
  have "response (handler ?e example_request fresh_state)
     = \<lparr> status = 200, json = DescriptionBody (trim (js '' A fine lamp. '')) \<rparr>" by blast
  with a v m show ?thesis by (simp add: tr l [symmetric])
qed




lemma example_ip: "getClientIP example_request = js ''203.0.113.7''"
  by (simp add: getClientIP_def example_request_def orElse_def js_def)

lemma example_clock: "now_rate example_env = 1000" "random_cleanup example_env = True"
  by (simp_all add: example_env_def)
lemma example_post: "http_method example_request = js ''POST''"
  by (simp add: example_request_def)

lemmas check_eval = checkRateLimit_def Let_def RATE_LIMIT_MAX_REQUESTS_def RATE_LIMIT_WINDOW_def

lemma check_steps:
  "checkRateLimit 1000 True ip [] = (True, [(ip, [1000])])"
  "checkRateLimit 1000 True ip [(ip, [1000])] = (True, [(ip, [1000, 1000])])"
  "checkRateLimit 1000 True ip [(ip, [1000, 1000])] = (True, [(ip, [1000, 1000, 1000])])"
  "checkRateLimit 1000 True ip [(ip, [1000, 1000, 1000])]
     = (True, [(ip, [1000, 1000, 1000, 1000])])"
  "checkRateLimit 1000 True ip [(ip, [1000, 1000, 1000, 1000])]
     = (True, [(ip, [1000, 1000, 1000, 1000, 1000])])"
  "checkRateLimit 1000 True ip [(ip, [1000, 1000, 1000, 1000, 1000])]
     = (False, [(ip, [1000, 1000, 1000, 1000, 1000])])"
  by (simp_all add: check_eval)

lemma example_run:
  "admittedTimes (js ''203.0.113.7'') fresh_state (replicate 7 (example_env, example_request))
     = [1000, 1000, 1000, 1000, 1000]"
proof -
  have r: "replicate 7 x = [x, x, x, x, x, x, x]" for x :: "env \<times> request"
    by (simp add: numeral_eq_Suc)
  show ?thesis
    unfolding r fresh_state_def
    by (simp add: admittedTimes_step example_ip example_clock example_post check_steps del: admittedTimes.simps(2))
qed

text \<open>
  A client with three recent requests is admitted and its timestamp appended; one with five
  is answered 429; of seven requests at the same instant the first five are admitted.
\<close>

theorem rate_limit_five_per_minute_witness:
  "distinct (map fst [(js ''203.0.113.7'', [100, 200, 300::int])]) \<and>
   fst (checkRateLimit 1000 True (js ''203.0.113.7'') [(js ''203.0.113.7'', [100, 200, 300])]) \<and>
   window (snd (checkRateLimit 1000 True (js ''203.0.113.7'')
                  [(js ''203.0.113.7'', [100, 200, 300])])) (js ''203.0.113.7'')
     = [100, 200, 300, 1000] \<and>
   http_method example_request = js ''POST'' \<and>
   status (response (handler example_env example_request busy_state)) = 429 \<and>
   rateLimitMap fresh_state = [] \<and>
   sorted (map (\<lambda>p. now_rate (fst p)) (replicate 7 (example_env, example_request))) \<and>
   admittedTimes (js ''203.0.113.7'') fresh_state (replicate 7 (example_env, example_request))
     = [1000, 1000, 1000, 1000, 1000] \<and>
   length (filter (\<lambda>t. 1000 \<le> t \<and> t < 1000 + 60000)
             (admittedTimes (js ''203.0.113.7'') fresh_state
                (replicate 7 (example_env, example_request)))) \<le> 5"
proof -
  let ?ip = "js ''203.0.113.7''"
  let ?m = "[(?ip, [100, 200, 300::int])]"
  let ?rs = "replicate 7 (example_env, example_request)"
  note inst = rate_limit_five_per_minute [of 1000 True ?ip ?m example_request example_env
      busy_state fresh_state ?rs 1000 ?ip]
  have d: "distinct (map fst ?m)" by simp
  have ok: "fst (checkRateLimit 1000 True ?ip ?m)"
    by (simp add: checkRateLimit_def RATE_LIMIT_MAX_REQUESTS_def RATE_LIMIT_WINDOW_def Let_def)
  have w0: "window ?m ?ip = [100, 200, 300]" by (simp add: window_def)
  from inst d ok have "window (snd (checkRateLimit 1000 True ?ip ?m)) ?ip
          = filter (\<lambda>t. 1000 - t < 60000) (window ?m ?ip) @ [1000]" by blast
  then have w1: "window (snd (checkRateLimit 1000 True ?ip ?m)) ?ip = [100, 200, 300, 1000]"
    by (simp add: w0)
  have post: "http_method example_request = js ''POST''" by (simp add: example_request_def)
  have full: "\<not> fst (checkRateLimit (now_rate example_env) (random_cleanup example_env)
                  (getClientIP example_request) (rateLimitMap busy_state))"
    by (simp add: example_ip example_env_def busy_state_def checkRateLimit_def
                  RATE_LIMIT_MAX_REQUESTS_def RATE_LIMIT_WINDOW_def Let_def)
  from inst post full have s: "status (response (handler example_env example_request busy_state)) = 429"
    by blast
  have e: "rateLimitMap fresh_state = []" by (simp add: fresh_state_def)
  have srt: "sorted (map (\<lambda>p. now_rate (fst p)) ?rs)" by (simp add: sorted_replicate)
  from inst e srt have b: "length (filter (\<lambda>t. 1000 \<le> t \<and> t < 1000 + 60000)
             (admittedTimes ?ip fresh_state ?rs)) \<le> 5" by blast
  from d ok w1 post s e srt example_run b show ?thesis by blast
qed

text \<open>At time 400000 the entry stamped 1000 is removed and the one stamped 200000 kept.\<close>

theorem cleanCache_expiry_witness:
  "distinct (map fst example_cache) \<and>
   cleanCache 400000 example_cache
     = [(js ''lamp:bright led'', \<lparr> description = js ''A fine lamp.'', timestamp = 200000 \<rparr>)] \<and>
   cleanedBefore False (trace (handler example_env example_request fresh_state))"
proof -
  have d: "distinct (map fst example_cache)" by (simp add: example_cache_def js_inj)
  from cleanCache_expiry [OF d, of 400000 example_env example_request fresh_state]
  have "cleanCache 400000 example_cache
          = filter (\<lambda>(k, v). \<not> 400000 - timestamp v > 300000) example_cache"
    and c: "cleanedBefore False (trace (handler example_env example_request fresh_state))"
    by blast+
  then have "cleanCache 400000 example_cache
     = [(js ''lamp:bright led'', \<lparr> description = js ''A fine lamp.'', timestamp = 200000 \<rparr>)]"
    by (simp add: example_cache_def)
  with d c show ?thesis by blast
qed

text \<open>The example request against a state that holds its key: served from the cache.\<close>

theorem cache_hit_serves_cached_witness:
  "admits example_env example_request cached_state \<and>
   validateAndSanitizeInput id (body example_request)
     = Inr (Valid \<lparr> productName = js ''Lamp'', productFeatures = js ''Bright bLED/b'',
                      email = js ''ann@example.com'' \<rparr>) \<and>
   trim (toLowerCase id (js ''Lamp'')) @ js '':'' @
     take 200 (trim (toLowerCase id (js ''Bright bLED/b''))) = js ''lamp:bright bled/b'' \<and>
   getCacheKey id (js '' Desk LAMP '') (js ''  '' @ replicate 250 66)
     = js ''desk lamp:'' @ replicate 200 98 \<and>
   map_of (responseCache cached_state) (js ''lamp:bright bled/b'')
     = Some \<lparr> description = js ''A fine lamp.'', timestamp = 500 \<rparr> \<and>
   CacheGet (js ''lamp:bright bled/b'')
     \<in> set (trace (handler example_env example_request cached_state)) \<and>
   status (response (handler example_env example_request cached_state)) = 200 \<and>
   json (response (handler example_env example_request cached_state))
     = DescriptionBody (js ''A fine lamp.'') \<and>
   list_all (\<lambda>ev. \<not> isLlmCall ev) (trace (handler example_env example_request cached_state))"
proof -
  let ?e = "example_env"
  let ?item = "\<lparr> description = js ''A fine lamp.'', timestamp = 500 \<rparr>"
  let ?n = "trim (toLowerCase (unicodeLower ?e) (productName example_data)) @ js '':'' @
            take 200 (trim (toLowerCase (unicodeLower ?e) (productFeatures example_data)))"
  have l: "unicodeLower ?e = id" by (simp add: example_env_def)
  have v: "validateAndSanitizeInput (unicodeLower ?e) (body example_request)
             = Inr (Valid example_data)" by (rule example_valid [OF l])
  have a: "admits ?e example_request cached_state" by (rule example_admits_cached)
  have d: "distinct (map fst (responseCache cached_state))" by (simp add: cached_state_def)
  have tr: "cacheTrimmed (responseCache cached_state)"
    by (simp add: cached_state_def cacheTrimmed_def trim_def isWhiteSpace_def js_def)
  have n: "?n = js ''lamp:bright bled/b''"
    by (simp add: l example_data_def toLowerCase_def asciiLower_def trim_def
                  isWhiteSpace_def js_def)
  have m0: "map_of (responseCache cached_state) (js ''lamp:bright bled/b'') = Some ?item"
    by (simp add: cached_state_def)
  then have m: "map_of (responseCache cached_state) ?n = Some ?item" by (simp only: n)
  have y: "now_lookup ?e - timestamp ?item < 300000" by (simp add: example_env_def)
  have c: "now_clean ?e \<le> now_lookup ?e" by (simp add: example_env_def)
  note inst = cache_hit_serves_cached [OF a v d tr m y c]
  from inst have g: "CacheGet (js ''lamp:bright bled/b'')
     \<in> set (trace (handler example_env example_request cached_state))" by (simp only: n)
  from inst have s: "status (response (handler example_env example_request cached_state)) = 200"
    by blast
  from inst have j: "json (response (handler example_env example_request cached_state))
     = DescriptionBody (js ''A fine lamp.'')" by simp
  from inst have nl: "list_all (\<lambda>ev. \<not> isLlmCall ev)
     (trace (handler example_env example_request cached_state))" by blast
  have v': "validateAndSanitizeInput id (body example_request)
     = Inr (Valid \<lparr> productName = js ''Lamp'', productFeatures = js ''Bright bLED/b'',
                      email = js ''ann@example.com'' \<rparr>)"
    using v by (simp add: l example_data_def)
  have n': "trim (toLowerCase id (js ''Lamp'')) @ js '':'' @
     take 200 (trim (toLowerCase id (js ''Bright bLED/b''))) = js ''lamp:bright bled/b''"
    using n by (simp add: l example_data_def)
  from a v' n' getCacheKey_example m0 g s j nl show ?thesis by blast
qed

section \<open>api/generate.js: validateAndSanitizeInput\<close>

text \<open>
  What the function does on the inputs whose \<open>email\<close> is missing, falsy or a string:
  an accepted input comes back within the length limits, free of \<open><\<close>, \<open>>\<close> and
  control characters, with the trimmed, lower-cased email; an input whose product name or
  features are missing or no string, or whose email fails the regex, is rejected.
\<close>

lemma deriv_alphabet:
  "r' \<in> set (deriv c r) \<Longrightarrow> alphabet r c \<and> (\<forall>x. alphabet r' x \<longrightarrow> alphabet r x)"
  by (induction r arbitrary: r') (auto split: if_splits)

lemma matches_Nil: "\<not> matches [] s"
  by (induction s) auto

lemma matches_alphabet:
  "matches rs s \<Longrightarrow> \<forall>c \<in> set s. \<exists>r \<in> set rs. alphabet r c"
proof (induction s arbitrary: rs)
  case Nil
  then show ?case by simp
next
  case (Cons c cs)
  let ?ds = "concat (map (deriv c) rs)"
  from Cons.prems have m: "matches ?ds cs" by simp
  then have "?ds \<noteq> []" using matches_Nil by metis
  then obtain r r' where r: "r \<in> set rs" "r' \<in> set (deriv c r)" by fastforce
  then have hd: "\<exists>r \<in> set rs. alphabet r c" using deriv_alphabet by blast
  have tl: "\<exists>r \<in> set rs. alphabet r x" if "x \<in> set cs" for x
  proof -
    from Cons.IH [OF m] that obtain d where d: "d \<in> set ?ds" "alphabet d x" by blast
    then obtain r where "r \<in> set rs" "d \<in> set (deriv c r)" by auto
    with d(2) deriv_alphabet show ?thesis by blast
  qed
  from hd tl show ?case by auto
qed

lemma emailRegex_chars:
  assumes "rx_test emailRegex s"
  shows "\<forall>c \<in> set s. emailLocalChar c \<or> c = 64 \<or> emailDomainChar c \<or> c = 46"
  using matches_alphabet [OF assms [unfolded rx_test_def]]
  by (auto simp: emailRegex_def OneOrMore_def)

lemma email_char_plain:
  assumes "emailLocalChar c \<or> c = 64 \<or> emailDomainChar c \<or> c = 46"
  shows "plainChar c"
proof -
  have a: "alnum c \<Longrightarrow> plainChar c" by (auto simp: alnum_def plainChar_def)
  have l: "emailLocalChar c \<Longrightarrow> plainChar c"
    unfolding emailLocalChar_def using a by (auto simp: plainChar_def)
  have d: "emailDomainChar c \<Longrightarrow> plainChar c"
    unfolding emailDomainChar_def using a by (auto simp: plainChar_def)
  from assms l d show ?thesis by (auto simp: plainChar_def)
qed

lemma plainChar_lower: "plainChar c \<Longrightarrow> plainChar (asciiLower c)"
  by (auto simp: plainChar_def asciiLower_def)

lemma plainChar_props:
  assumes "plainChar c"
  shows "c < 128" and "\<not> isWhiteSpace c" and "\<not> (c \<le> 31 \<or> c = 127)"
    and "\<not> (c = 60 \<or> c = 62)"
  using assms by (auto simp: plainChar_def isWhiteSpace_def)

lemma set_trim: "set (trim s) \<subseteq> set s"
proof
  fix x assume "x \<in> set (trim s)"
  then have "x \<in> set (dropWhile isWhiteSpace (rev (dropWhile isWhiteSpace s)))"
    by (simp add: trim_def)
  then have "x \<in> set (rev (dropWhile isWhiteSpace s))" by (rule set_dropWhileD)
  then have "x \<in> set (dropWhile isWhiteSpace s)" by simp
  then show "x \<in> set s" by (rule set_dropWhileD)
qed

lemma length_trim: "length (trim s) \<le> length s"
proof -
  have "length (trim s) \<le> length (dropWhile isWhiteSpace s)"
    using length_dropWhile_le [of isWhiteSpace "rev (dropWhile isWhiteSpace s)"]
    by (simp add: trim_def)
  also have "\<dots> \<le> length s" by (rule length_dropWhile_le)
  finally show ?thesis .
qed

lemma sanitizeText_length: "length (sanitizeText s) \<le> length s"
proof -
  have "length (sanitizeText s)
          \<le> length (filter (\<lambda>c. \<not> (c = 60 \<or> c = 62)) (filter (\<lambda>c. \<not> (c \<le> 31 \<or> c = 127)) s))"
    unfolding sanitizeText_def by (rule length_trim)
  also have "\<dots> \<le> length (filter (\<lambda>c. \<not> (c \<le> 31 \<or> c = 127)) s)" by (rule length_filter_le)
  also have "\<dots> \<le> length s" by (rule length_filter_le)
  finally show ?thesis .
qed

lemma sanitizeText_chars:
  "c \<in> set (sanitizeText s) \<Longrightarrow> c \<noteq> 60 \<and> c \<noteq> 62 \<and> \<not> c \<le> 31 \<and> c \<noteq> 127"
  using set_trim [of "filter (\<lambda>c. \<not> (c = 60 \<or> c = 62)) (filter (\<lambda>c. \<not> (c \<le> 31 \<or> c = 127)) s)"]
  by (auto simp: sanitizeText_def)

lemma sanitizeText_plain:
  assumes "list_all plainChar s"
  shows "sanitizeText s = s"
proof -
  from assms have p: "\<And>c. c \<in> set s \<Longrightarrow> plainChar c" by (simp add: list_all_iff)
  have 1: "filter (\<lambda>c. \<not> (c \<le> 31 \<or> c = 127)) s = s"
    using p plainChar_props(3) by (simp add: filter_id_conv)
  have 2: "filter (\<lambda>c. \<not> (c = 60 \<or> c = 62)) s = s"
    using p plainChar_props(4) by (simp add: filter_id_conv)
  have 3: "trim s = s"
  proof (rule trim_id)
    show "s = [] \<or> \<not> isWhiteSpace (hd s) \<and> \<not> isWhiteSpace (last s)"
    proof (cases "s = []")
      case False
      then have "hd s \<in> set s" "last s \<in> set s" by simp_all
      with p plainChar_props(2) show ?thesis by blast
    qed simp
  qed
  show ?thesis unfolding sanitizeText_def 1 2 3 ..
qed

lemma validated_email:
  assumes "rx_test emailRegex s"
  shows "sanitizeText (toLowerCase uni s) = map asciiLower s"
proof -
  from emailRegex_chars [OF assms] have p: "\<And>c. c \<in> set s \<Longrightarrow> plainChar c"
    using email_char_plain by blast
  then have "list_all (\<lambda>c. c < 128) s" using plainChar_props(1) by (simp add: list_all_iff)
  then have l: "toLowerCase uni s = map asciiLower s" by (simp add: toLowerCase_def)
  have "list_all plainChar (map asciiLower s)"
    using p plainChar_lower by (simp add: list_all_iff)
  then show ?thesis by (simp add: l sanitizeText_plain)
qed

lemma validate_accepted:
  assumes "validateAndSanitizeInput uni data = Inr (Valid d)"
  shows "length (productName d) \<le> 100 \<and> length (productFeatures d) \<le> 2000
    \<and> (\<forall>c \<in> set (productName d) \<union> set (productFeatures d).
          c \<noteq> 60 \<and> c \<noteq> 62 \<and> \<not> c \<le> 31 \<and> c \<noteq> 127)
    \<and> (\<exists>e. getProp data (js ''email'') = JStr e \<and> email d = map asciiLower (trim e))"
proof -
  from assms obtain e n f where
    em: "getProp data (js ''email'') = JStr e" "rx_test emailRegex (trim e)"
    and d: "d = \<lparr> productName = sanitizeText (slice0 100 (trim n)),
                  productFeatures = sanitizeText (slice0 2000 (trim f)),
                  email = sanitizeText (toLowerCase uni (trim e)) \<rparr>"
    by (auto simp: validateAndSanitizeInput_def Let_def split: if_splits jsval.splits)
  have 1: "length (productName d) \<le> 100"
    using sanitizeText_length [of "slice0 100 (trim n)"] by (simp add: d slice0_def)
  have 2: "length (productFeatures d) \<le> 2000"
    using sanitizeText_length [of "slice0 2000 (trim f)"] by (simp add: d slice0_def)
  have 3: "\<forall>c \<in> set (productName d) \<union> set (productFeatures d).
          c \<noteq> 60 \<and> c \<noteq> 62 \<and> \<not> c \<le> 31 \<and> c \<noteq> 127"
    using sanitizeText_chars by (auto simp: d)
  have 4: "email d = map asciiLower (trim e)"
    by (simp add: d validated_email [OF em(2)])
  from 1 2 3 4 em(1) show ?thesis by blast
qed

lemma validate_rejected:
  assumes "data \<noteq> JUndefined" and "data \<noteq> JNull"
    and "\<not> truthy (getProp data (js ''email'')) \<or> (\<exists>e. getProp data (js ''email'') = JStr e)"
    and "(\<forall>n. getProp data (js ''productName'') \<noteq> JStr n)
       \<or> (\<forall>f. getProp data (js ''productFeatures'') \<noteq> JStr f)
       \<or> \<not> truthy (getProp data (js ''productName''))
       \<or> \<not> truthy (getProp data (js ''productFeatures''))
       \<or> (\<forall>e. getProp data (js ''email'') = JStr e \<longrightarrow> \<not> rx_test emailRegex (trim e))"
  shows "\<exists>msg. validateAndSanitizeInput uni data = Inr (Invalid msg)"
  using assms
  by (auto simp: validateAndSanitizeInput_def Let_def split: if_splits jsval.splits)

lemma validate_number_email:
  "validateAndSanitizeInput uni
     (JObj [(js ''email'', JNum 123), (js ''productName'', JNum 5),
            (js ''productFeatures'', JStr (js ''x''))])
   = Inl (TypeError (js ''email.trim is not a function''))"
  by (simp add: validateAndSanitizeInput_def js_inj)

text \<open>
  Claim C5. The input \<open>{ email: 123, productName: 5, productFeatures: 'x' }\<close> has a
  non-string product name, yet is not rejected with \<open>valid: false\<close>: the email check comes
  first and calls \<open>trim\<close> on the number, which throws a TypeError; the handler answers such a
  request with 500, not with the 400 of a rejected input.
\<close>

theorem validate_nonstring_email_throws:
  "validateAndSanitizeInput uni
     (JObj [(js ''email'', JNum 123), (js ''productName'', JNum 5),
            (js ''productFeatures'', JStr (js ''x''))])
   = Inl (TypeError (js ''email.trim is not a function'')) \<and>
   status (response (handler example_env
      (example_request \<lparr> body := JObj [(js ''email'', JNum 123), (js ''productName'', JNum 5),
                                        (js ''productFeatures'', JStr (js ''x''))] \<rparr>)
      fresh_state)) = 500"
proof -
  let ?req = "example_request \<lparr> body := JObj [(js ''email'', JNum 123),
                 (js ''productName'', JNum 5), (js ''productFeatures'', JStr (js ''x''))] \<rparr>"
  have a: "admits example_env ?req fresh_state"
    by (simp add: admits_def example_request_def fresh_state_def
                  checkRateLimit_def RATE_LIMIT_MAX_REQUESTS_def Let_def)
  have t: "tryBody example_env ?req (responseCache fresh_state)
             = ([Validate], responseCache fresh_state,
                Inl (TypeError (js ''email.trim is not a function'')))"
    by (simp add: tryBody_def validate_number_email)
  have "status (response (handler example_env ?req fresh_state)) = 500"
    by (simp add: handler_run(1) [OF a t])
  with validate_number_email [of uni] show ?thesis by (rule conjI)
qed

end
